theory Spec2Isabelle
  imports Complex_Main
begin

section \<open>The 3D warehouse-floor visualizer (App.jsx)\<close>

text \<open>
  A shallow embedding of the three computational parts of \<^verbatim>\<open>App.jsx\<close>, in the
  version that has the error blink and the floating label: the colour
  computed by \<^verbatim>\<open>Shape\<close>, the animation step \<^verbatim>\<open>updateTransform\<close> together with the
  handlers \<^verbatim>\<open>handleMove\<close> and \<^verbatim>\<open>handleRotate\<close> that create animation entries, and
  \<^verbatim>\<open>expandGrid\<close>.

  JavaScript numbers are modelled as mathematical reals (HOL's \<^typ>\<open>real\<close>): this model
  has no rounding, no \<^verbatim>\<open>NaN\<close> and no infinities; statements that depend on exact
  arithmetic say so. A second model of \<^verbatim>\<open>updateTransform\<close> rounds every arithmetic
  result to binary64, as the program does. \<^verbatim>\<open>Math.sign\<close> is \<^const>\<open>sgn\<close>,
  \<^verbatim>\<open>Math.abs\<close> is \<^const>\<open>abs\<close>, \<^verbatim>\<open>Math.min\<close> is \<^const>\<open>min\<close> and \<^verbatim>\<open>Math.PI\<close> is
  \<^const>\<open>pi\<close>.
\<close>

subsection \<open>Box descriptors and the colour of a Shape\<close>

text \<open>
  A box item as \<^verbatim>\<open>expandGrid\<close> builds it. \<^verbatim>\<open>color\<close> may be missing
  (\<^verbatim>\<open>undefined\<close>), which is \<^const>\<open>None\<close>.
\<close>

record box =
  box_id :: string
  box_type :: string
  box_x :: real
  box_y :: real
  box_z :: real
  box_width :: real
  box_height :: real
  box_depth :: real
  box_color :: "string option"

text \<open>
  \<^verbatim>\<open>carsOnBoxes\<close> and \<^verbatim>\<open>errorBoxes\<close> are objects from box ids to booleans; a missing
  key reads as \<^verbatim>\<open>undefined\<close>, which is falsy.
\<close>

definition truthy :: "bool option \<Rightarrow> bool" where
  "truthy v = (v = Some True)"

text \<open>\<^verbatim>\<open>box.color || 'limegreen'\<close>: the empty string is falsy as well.\<close>

definition base_color :: "box \<Rightarrow> string" where
  "base_color b =
     (case box_color b of
        None \<Rightarrow> ''limegreen''
      | Some c \<Rightarrow> if c = [] then ''limegreen'' else c)"

text \<open>
  The colour computed in the body of \<^verbatim>\<open>Shape\<close> (lines 49 to 55), in the order of the
  source: base colour, then the car, then the selection, then the error blink.
\<close>

definition Shape_color ::
  "box \<Rightarrow> bool \<Rightarrow> (string \<rightharpoonup> bool) \<Rightarrow> (string \<rightharpoonup> bool) \<Rightarrow> bool \<Rightarrow> string" where
  "Shape_color b isSelected carsOnBoxes errorBoxes blink =
     (let color0 = base_color b;
          color1 = (if truthy (carsOnBoxes (box_id b)) then ''lightgray'' else color0);
          color2 = (if isSelected then ''yellow'' else color1)
      in if truthy (errorBoxes (box_id b))
         then (if blink then ''firebrick'' else color2)
         else color2)"

subsection \<open>Meshes, animation entries and updateTransform\<close>

text \<open>The part of a three.js mesh that the program reads and writes.\<close>

record mesh =
  pos_x :: real
  pos_y :: real
  pos_z :: real
  rot_x :: real
  rot_y :: real
  rot_z :: real

datatype axis_name = X | Y | Z

datatype kind = Move | Rotate

text \<open>
  The \<^verbatim>\<open>resolve\<close> closure of an entry calls \<^verbatim>\<open>setMoving\<close> or \<^verbatim>\<open>setRotating\<close> with an
  updater that deletes the key \<^verbatim>\<open>selectedBoxId\<close> captured when the entry was made.
  It is represented by the map it updates and the key it deletes.
\<close>

datatype callback = DeleteMoving string | DeleteRotating string

text \<open>
  \<^verbatim>\<open>moveObj\<close> and \<^verbatim>\<open>rotateObj\<close>. A rotate entry has no \<^verbatim>\<open>axis\<close> property, which is
  \<^const>\<open>None\<close>.
\<close>

record anim =
  axis :: "axis_name option"
  remaining :: real
  resolve :: callback

text \<open>
  \<^verbatim>\<open>meshRef.current.position[obj.axis] += step\<close>. With an undefined axis JavaScript
  would write a property named \<^verbatim>\<open>undefined\<close> and leave the three coordinates alone.
\<close>

fun add_position :: "axis_name option \<Rightarrow> real \<Rightarrow> mesh \<Rightarrow> mesh" where
  "add_position (Some X) step m = m\<lparr>pos_x := pos_x m + step\<rparr>"
| "add_position (Some Y) step m = m\<lparr>pos_y := pos_y m + step\<rparr>"
| "add_position (Some Z) step m = m\<lparr>pos_z := pos_z m + step\<rparr>"
| "add_position None step m = m"

fun position :: "axis_name \<Rightarrow> mesh \<Rightarrow> real" where
  "position X m = pos_x m"
| "position Y m = pos_y m"
| "position Z m = pos_z m"

definition speed_of :: "kind \<Rightarrow> real" where
  "speed_of type = (if type = Move then 1 else pi)"

definition step_of :: "anim \<Rightarrow> kind \<Rightarrow> real \<Rightarrow> real" where
  "step_of obj type delta =
     sgn (remaining obj) * min \<bar>remaining obj\<bar> (speed_of type * delta)"

text \<open>
  \<^verbatim>\<open>updateTransform(meshRef, obj, type, delta)\<close>. The function mutates the mesh and
  the entry and may call \<^verbatim>\<open>obj.resolve()\<close>; the model returns the mesh reference, the
  entry and the list of callbacks invoked (empty or one element). \<^verbatim>\<open>obj\<close> is
  \<^const>\<open>None\<close> when the map has no entry, \<^verbatim>\<open>meshRef.current\<close> is \<^const>\<open>None\<close> when
  the mesh is not mounted: both return at once.
\<close>

definition updateTransform ::
  "mesh option \<Rightarrow> anim option \<Rightarrow> kind \<Rightarrow> real \<Rightarrow> mesh option \<times> anim option \<times> callback list" where
  "updateTransform meshRef obj type delta =
     (case obj of
        None \<Rightarrow> (meshRef, obj, [])
      | Some ob \<Rightarrow>
          (case meshRef of
             None \<Rightarrow> (meshRef, obj, [])
           | Some m \<Rightarrow>
               (let step = step_of ob type delta;
                    m' = (if type = Move then add_position (axis ob) step m
                          else m\<lparr>rot_y := rot_y m + step\<rparr>);
                    ob' = ob\<lparr>remaining := remaining ob - step\<rparr>
                in (Some m', Some ob',
                    if \<bar>remaining ob'\<bar> < 1 / 1000 then [resolve ob'] else []))))"

subsection \<open>The state of App and its handlers\<close>

text \<open>
  One mounted \<^verbatim>\<open>Shape\<close>: the id of its box and \<^verbatim>\<open>meshRef.current\<close>. The list is in the
  order of \<^verbatim>\<open>items\<close>; two items may carry the same id.
\<close>

type_synonym shape = "string \<times> mesh option"

text \<open>
  The \<^verbatim>\<open>useState\<close> cells of \<^verbatim>\<open>App\<close>. \<^verbatim>\<open>selectedBoxId\<close> is \<^verbatim>\<open>null\<close> (\<^const>\<open>None\<close>)
  or a string. \<^verbatim>\<open>distance\<close> holds what \<^verbatim>\<open>parseFloat(distance)\<close> returns for the
  content of the input field, \<^const>\<open>None\<close> being \<^verbatim>\<open>NaN\<close>. \<^verbatim>\<open>alerts\<close> records the calls of
  \<^verbatim>\<open>alert\<close> and \<^verbatim>\<open>resolveCalls\<close> the calls of \<^verbatim>\<open>resolve\<close> callbacks, in order; the
  program does not read either.
\<close>

record app =
  shapes :: "shape list"
  selectedBoxId :: "string option"
  app_axis :: axis_name
  distance :: "real option"
  moving :: "string \<rightharpoonup> anim"
  rotating :: "string \<rightharpoonup> anim"
  carsOnBoxes :: "string \<rightharpoonup> bool"
  errorBoxes :: "string \<rightharpoonup> bool"
  labelBoxId :: "string option"
  alerts :: "string list"
  resolveCalls :: "callback list"

definition initial :: "shape list \<Rightarrow> app" where
  "initial ss =
     \<lparr>shapes = ss, selectedBoxId = None, app_axis = X, distance = Some 0,
      moving = Map.empty, rotating = Map.empty, carsOnBoxes = Map.empty,
      errorBoxes = Map.empty, labelBoxId = None, alerts = [], resolveCalls = []\<rparr>"

definition alert :: "string \<Rightarrow> app \<Rightarrow> app" where
  "alert msg s = s\<lparr>alerts := alerts s @ [msg]\<rparr>"

text \<open>
  \<^verbatim>\<open>handleMove\<close>. \<^verbatim>\<open>!selectedBoxId\<close> holds for \<^verbatim>\<open>null\<close> and for the empty string (the
  value of the \<^verbatim>\<open>--None--\<close> option). An entry object is always truthy, so
  \<^verbatim>\<open>moving[selectedBoxId]\<close> is truthy exactly when the key is present.
\<close>

definition handleMove :: "app \<Rightarrow> app" where
  "handleMove s =
     (case selectedBoxId s of
        None \<Rightarrow> alert ''No pallet selected!'' s
      | Some k \<Rightarrow>
          if k = [] then alert ''No pallet selected!'' s
          else (case distance s of
                  None \<Rightarrow> s
                | Some dst \<Rightarrow>
                    if dst = 0 then s
                    else if moving s k \<noteq> None \<or> rotating s k \<noteq> None then s
                    else s\<lparr>moving := (moving s)
                           (k \<mapsto> \<lparr>axis = Some (app_axis s), remaining = dst,
                                 resolve = DeleteMoving k\<rparr>)\<rparr>))"

definition handleRotate :: "app \<Rightarrow> app" where
  "handleRotate s =
     (case selectedBoxId s of
        None \<Rightarrow> alert ''No pallet selected!'' s
      | Some k \<Rightarrow>
          if k = [] then alert ''No pallet selected!'' s
          else if rotating s k \<noteq> None \<or> moving s k \<noteq> None then s
          else s\<lparr>rotating := (rotating s)
                 (k \<mapsto> \<lparr>axis = None, remaining = pi, resolve = DeleteRotating k\<rparr>)\<rparr>)"

definition toggleCar :: "string \<Rightarrow> app \<Rightarrow> app" where
  "toggleCar boxId s =
     s\<lparr>carsOnBoxes := (carsOnBoxes s)(boxId \<mapsto> \<not> truthy (carsOnBoxes s boxId))\<rparr>"

definition toggleError :: "string \<Rightarrow> app \<Rightarrow> app" where
  "toggleError boxId s =
     s\<lparr>errorBoxes := (errorBoxes s)(boxId \<mapsto> \<not> truthy (errorBoxes s boxId))\<rparr>"

subsection \<open>One rendered frame\<close>

text \<open>
  An entry is a shared object: \<^verbatim>\<open>obj.remaining -= step\<close> is seen through the map. The
  model writes the entry back under the key it was read from.
\<close>

definition store :: "(string \<rightharpoonup> anim) \<Rightarrow> string \<Rightarrow> anim option \<Rightarrow> (string \<rightharpoonup> anim)" where
  "store m k obj = (case obj of None \<Rightarrow> m | Some ob \<Rightarrow> m(k \<mapsto> ob))"

text \<open>
  The \<^verbatim>\<open>useFrame\<close> callback of one \<^verbatim>\<open>Shape\<close>: the move entry of the box, then its
  rotate entry, on the same mesh.
\<close>

definition Shape_useFrame ::
  "real \<Rightarrow> shape \<Rightarrow> (string \<rightharpoonup> anim) \<Rightarrow> (string \<rightharpoonup> anim) \<Rightarrow>
   shape \<times> (string \<rightharpoonup> anim) \<times> (string \<rightharpoonup> anim) \<times> callback list" where
  "Shape_useFrame delta sh mv rt =
     (case sh of (k, r) \<Rightarrow>
        (case updateTransform r (mv k) Move delta of (r1, o1, c1) \<Rightarrow>
           (case updateTransform r1 (rt k) Rotate delta of (r2, o2, c2) \<Rightarrow>
              ((k, r2), store mv k o1, store rt k o2, c1 @ c2))))"

text \<open>All shapes of the scene, in order, within one frame.\<close>

fun frame_shapes ::
  "real \<Rightarrow> shape list \<Rightarrow> (string \<rightharpoonup> anim) \<Rightarrow> (string \<rightharpoonup> anim) \<Rightarrow>
   shape list \<times> (string \<rightharpoonup> anim) \<times> (string \<rightharpoonup> anim) \<times> callback list" where
  "frame_shapes delta [] mv rt = ([], mv, rt, [])"
| "frame_shapes delta (sh # ss) mv rt =
     (case Shape_useFrame delta sh mv rt of (sh', mv1, rt1, cs1) \<Rightarrow>
        (case frame_shapes delta ss mv1 rt1 of (ss', mv2, rt2, cs2) \<Rightarrow>
           (sh' # ss', mv2, rt2, cs1 @ cs2)))"

text \<open>The state update a \<^verbatim>\<open>resolve\<close> callback queues: copy the map, delete the key.\<close>

fun run_callback :: "callback \<Rightarrow> app \<Rightarrow> app" where
  "run_callback (DeleteMoving k) s = s\<lparr>moving := (moving s)(k := None)\<rparr>"
| "run_callback (DeleteRotating k) s = s\<lparr>rotating := (rotating s)(k := None)\<rparr>"

text \<open>
  One frame: every \<^verbatim>\<open>useFrame\<close> callback runs against the maps of the last render, and
  the state updates queued by the \<^verbatim>\<open>resolve\<close> calls are applied, in order, before the
  next frame (React re-renders between two frames).
\<close>

definition frame :: "real \<Rightarrow> app \<Rightarrow> app" where
  "frame delta s =
     (case frame_shapes delta (shapes s) (moving s) (rotating s) of
        (ss, mv, rt, cs) \<Rightarrow>
          fold run_callback cs
            (s\<lparr>shapes := ss, moving := mv, rotating := rt,
               resolveCalls := resolveCalls s @ cs\<rparr>))"

fun frames :: "real list \<Rightarrow> app \<Rightarrow> app" where
  "frames [] s = s"
| "frames (t # ts) s = frames ts (frame t s)"

text \<open>
  The \<^verbatim>\<open>useFrame\<close> callbacks of one frame alone: the \<^verbatim>\<open>resolve\<close> calls are recorded, the
  updates they queue are not applied yet. Nothing in the source makes the re-render
  precede the next frame; \<open>frame\<close> is \<open>tick\<close> followed by that re-render.
\<close>

definition tick :: "real \<Rightarrow> app \<Rightarrow> app" where
  "tick delta s =
     (case frame_shapes delta (shapes s) (moving s) (rotating s) of
        (ss, mv, rt, cs) \<Rightarrow>
          s\<lparr>shapes := ss, moving := mv, rotating := rt,
            resolveCalls := resolveCalls s @ cs\<rparr>)"

text \<open>The mesh of the (first) shape with a given box id, when it is mounted.\<close>

definition meshOf :: "app \<Rightarrow> string \<Rightarrow> mesh option" where
  "meshOf s k = (case map_of (shapes s) k of Some r \<Rightarrow> r | None \<Rightarrow> None)"

text \<open>The user's actions and the frame clock.\<close>

datatype action =
    HandleMove
  | HandleRotate
  | Frame real
  | SetSelectedBoxId "string option"
  | SetAxis axis_name
  | SetDistance "real option"
  | ToggleCar string
  | ToggleError string
  | SetLabelBoxId "string option"

fun act :: "action \<Rightarrow> app \<Rightarrow> app" where
  "act HandleMove s = handleMove s"
| "act HandleRotate s = handleRotate s"
| "act (Frame delta) s = frame delta s"
| "act (SetSelectedBoxId v) s = s\<lparr>selectedBoxId := v\<rparr>"
| "act (SetAxis a) s = s\<lparr>app_axis := a\<rparr>"
| "act (SetDistance d) s = s\<lparr>distance := d\<rparr>"
| "act (ToggleCar k) s = toggleCar k s"
| "act (ToggleError k) s = toggleError k s"
| "act (SetLabelBoxId v) s = s\<lparr>labelBoxId := v\<rparr>"

fun run :: "action list \<Rightarrow> app \<Rightarrow> app" where
  "run [] s = s"
| "run (a # as) s = run as (act a s)"

subsection \<open>updateTransform in binary64 arithmetic\<close>







subsection \<open>expandGrid\<close>

text \<open>
  A value of the \<^verbatim>\<open>rowLabels\<close> array as it comes from the JSON model. Numeric labels
  are natural numbers; they and the row index print in decimal, as \<^verbatim>\<open>String\<close> does for
  every integer below \<open>10\<^sup>2\<^sup>1\<close>.
\<close>

datatype jsval = JUndefined | JNull | JNum nat | JStr string

fun js_truthy :: "jsval \<Rightarrow> bool" where
  "js_truthy JUndefined = False"
| "js_truthy JNull = False"
| "js_truthy (JNum n) = (n \<noteq> 0)"
| "js_truthy (JStr str) = (str \<noteq> [])"

definition digit_char :: "nat \<Rightarrow> char" where
  "digit_char n = ''0123456789'' ! n"

function string_of_nat :: "nat \<Rightarrow> string" where
  "string_of_nat n =
     (if n < 10 then [digit_char n] else string_of_nat (n div 10) @ [digit_char (n mod 10)])"
  by pat_completeness auto
termination
  by (relation "measure id") auto

text \<open>The conversion a template literal applies to an interpolated value.\<close>

fun js_string :: "jsval \<Rightarrow> string" where
  "js_string JUndefined = ''undefined''"
| "js_string JNull = ''null''"
| "js_string (JNum n) = string_of_nat n"
| "js_string (JStr str) = str"

text \<open>\<^verbatim>\<open>floor.box\<close>, the shared box template.\<close>

record template =
  width :: real
  height :: real
  depth :: real
  color :: "string option"

text \<open>
  A grid item, the argument \<^verbatim>\<open>floor\<close> of \<^verbatim>\<open>expandGrid\<close> (written \<open>fl\<close>). A cell of
  \<^verbatim>\<open>grid\<close> is a number; \<^verbatim>\<open>rowLabels\<close> may be missing.
\<close>

record grid_def =
  rows :: nat
  cols :: nat
  grid :: "nat list list"
  cellWidth :: real
  cellDepth :: real
  floor_y :: real
  rowLabels :: "jsval list option"
  floor_box :: template

text \<open>\<^verbatim>\<open>floor.rowLabels?.[r]\<close>: \<^verbatim>\<open>undefined\<close> without a list or beyond its end.\<close>

definition rowLabels_at :: "grid_def \<Rightarrow> nat \<Rightarrow> jsval" where
  "rowLabels_at fl r =
     (case rowLabels fl of
        None \<Rightarrow> JUndefined
      | Some ls \<Rightarrow> if r < length ls then ls ! r else JUndefined)"

text \<open>\<^verbatim>\<open>floor.rowLabels?.[r] || r\<close>\<close>

definition rowLabel :: "grid_def \<Rightarrow> nat \<Rightarrow> jsval" where
  "rowLabel fl r = (if js_truthy (rowLabels_at fl r) then rowLabels_at fl r else JNum r)"

text \<open>The object pushed for the cell \<open>(r, c)\<close>.\<close>

definition new_box :: "grid_def \<Rightarrow> nat \<Rightarrow> nat \<Rightarrow> box" where
  "new_box fl r c =
     \<lparr>box_id = js_string (rowLabel fl r) @ string_of_nat (c + 1),
      box_type = ''box'',
      box_x = real c * cellWidth fl + cellWidth fl / 2,
      box_y = floor_y fl,
      box_z = real r * cellDepth fl + cellDepth fl / 2,
      box_width = width (floor_box fl),
      box_height = height (floor_box fl),
      box_depth = depth (floor_box fl),
      box_color = color (floor_box fl)\<rparr>"

datatype error = TypeError

text \<open>
  The inner loop over \<open>c\<close>, from \<open>c\<close> on, for the row \<open>r\<close>. Reading
  \<^verbatim>\<open>floor.grid[r][c]\<close> throws a TypeError when \<^verbatim>\<open>floor.grid[r]\<close> is undefined; a
  column beyond the end of the row reads \<^verbatim>\<open>undefined\<close>, which is not \<open>1\<close>.
\<close>

function cols_loop :: "grid_def \<Rightarrow> nat \<Rightarrow> nat \<Rightarrow> box list \<Rightarrow> error + box list" where
  "cols_loop fl r c boxes =
     (if c < cols fl then
        (if r < length (grid fl) then
           cols_loop fl r (Suc c)
             (if c < length (grid fl ! r) \<and> grid fl ! r ! c = 1
              then boxes @ [new_box fl r c] else boxes)
         else Inl TypeError)
      else Inr boxes)"
  by pat_completeness auto
termination
  by (relation "measure (\<lambda>(fl, r, c, boxes). cols fl - c)") auto

text \<open>The outer loop over \<open>r\<close>, from \<open>r\<close> on.\<close>

function rows_loop :: "grid_def \<Rightarrow> nat \<Rightarrow> box list \<Rightarrow> error + box list" where
  "rows_loop fl r boxes =
     (if r < rows fl then
        (case cols_loop fl r 0 boxes of
           Inl e \<Rightarrow> Inl e
         | Inr boxes' \<Rightarrow> rows_loop fl (Suc r) boxes')
      else Inr boxes)"
  by pat_completeness auto
termination
  by (relation "measure (\<lambda>(fl, r, boxes). rows fl - r)") auto

definition expandGrid :: "grid_def \<Rightarrow> error + box list" where
  "expandGrid fl = rows_loop fl 0 []"


subsection \<open>Notions used in the statements\<close>

text \<open>
  Every entry sits under the key its \<^verbatim>\<open>resolve\<close> closure deletes, in the map that
  closure updates: \<^verbatim>\<open>handleMove\<close> and \<^verbatim>\<open>handleRotate\<close> build entries no other way.
\<close>

definition own_callbacks :: "(string \<rightharpoonup> anim) \<Rightarrow> (string \<rightharpoonup> anim) \<Rightarrow> bool" where
  "own_callbacks mv rt =
     ((\<forall>k ob. mv k = Some ob \<longrightarrow> resolve ob = DeleteMoving k) \<and>
      (\<forall>k ob. rt k = Some ob \<longrightarrow> resolve ob = DeleteRotating k))"

text \<open>
  A well-formed scene: the box ids of the shapes are pairwise distinct (the data model's
  unique identifier) and every entry deletes its own key.
\<close>

definition wf :: "app \<Rightarrow> bool" where
  "wf s = (distinct (map fst (shapes s)) \<and> own_callbacks (moving s) (rotating s))"

text \<open>No box has a move entry and a rotate entry at the same time.\<close>

definition exclusive :: "app \<Rightarrow> bool" where
  "exclusive s = (\<forall>k. moving s k = None \<or> rotating s k = None)"

text \<open>
  The map of entries of one kind, the callback an entry of that kind under key \<open>k\<close>
  carries, and the number of times that callback has been invoked so far.
\<close>

fun entries :: "kind \<Rightarrow> app \<Rightarrow> (string \<rightharpoonup> anim)" where
  "entries Move s = moving s"
| "entries Rotate s = rotating s"

fun callback_of :: "kind \<Rightarrow> string \<Rightarrow> callback" where
  "callback_of Move k = DeleteMoving k"
| "callback_of Rotate k = DeleteRotating k"

definition calls :: "kind \<Rightarrow> string \<Rightarrow> app \<Rightarrow> nat" where
  "calls ty k s = count_list (resolveCalls s) (callback_of ty k)"

text \<open>
  What an animation of a kind writes: a move the three position coordinates, a rotation
  the Y rotation; and the one coordinate an entry advances (the axis is not used for a
  rotation).
\<close>

fun driven :: "kind \<Rightarrow> mesh \<Rightarrow> real list" where
  "driven Move m = [pos_x m, pos_y m, pos_z m]"
| "driven Rotate m = [rot_y m]"

fun coord :: "kind \<Rightarrow> axis_name \<Rightarrow> mesh \<Rightarrow> real" where
  "coord Move a m = position a m"
| "coord Rotate a m = rot_y m"

text \<open>Two angles are equal modulo \<open>2\<pi>\<close>.\<close>

definition same_angle :: "real \<Rightarrow> real \<Rightarrow> bool" where
  "same_angle x y = (\<exists>n::int. x - y = 2 * pi * real_of_int n)"

text \<open>The cell \<open>(r, c)\<close> of the occupancy grid exists and holds \<open>1\<close>.\<close>

definition occupied :: "grid_def \<Rightarrow> nat \<Rightarrow> nat \<Rightarrow> bool" where
  "occupied fl r c = (r < length (grid fl) \<and> c < length (grid fl ! r) \<and> grid fl ! r ! c = 1)"

text \<open>
  The row label as the specification words it: the entry of the override list for row
  \<open>r\<close> when the list has one, else the numeric row index.
\<close>

definition spec_rowLabel :: "grid_def \<Rightarrow> nat \<Rightarrow> string" where
  "spec_rowLabel fl r =
     (case rowLabels fl of
        None \<Rightarrow> string_of_nat r
      | Some ls \<Rightarrow> if r < length ls then js_string (ls ! r) else string_of_nat r)"

subsection \<open>Example scenes\<close>

definition pallet :: box where
  "pallet = \<lparr>box_id = ''A1'', box_type = ''box'', box_x = 5, box_y = 0, box_z = 5,
             box_width = 8, box_height = 1, box_depth = 8, box_color = None\<rparr>"

definition mesh0 :: mesh where
  "mesh0 = \<lparr>pos_x = 0, pos_y = 0, pos_z = 0, rot_x = 0, rot_y = 0, rot_z = 0\<rparr>"

definition scene :: app where
  "scene = (initial [(''A1'', Some mesh0), (''A2'', Some mesh0)])\<lparr>selectedBoxId := Some ''A1''\<rparr>"

definition move_entry :: anim where
  "move_entry = \<lparr>axis = Some X, remaining = 2, resolve = DeleteMoving ''A1''\<rparr>"

definition rotate_entry :: anim where
  "rotate_entry = \<lparr>axis = None, remaining = pi, resolve = DeleteRotating ''A1''\<rparr>"

text \<open>A move by 1 along X requested for the box \<open>A1\<close>.\<close>

definition move_scene :: app where
  "move_scene = handleMove (scene\<lparr>distance := Some 1\<rparr>)"

text \<open>
  A rotation of \<open>A1\<close> run to completion by one frame of \<open>4095/4096\<close> seconds, and a
  second one after it.
\<close>

definition rotated_once :: app where
  "rotated_once = frames [4095 / 4096] (handleRotate scene)"

definition rotated_twice :: app where
  "rotated_twice = frames [4095 / 4096] (handleRotate rotated_once)"

text \<open>The grid \<open>[[1,0],[0,1]]\<close> with cells of 10 by 10 and no row labels.\<close>

definition grid22 :: "real \<Rightarrow> template \<Rightarrow> grid_def" where
  "grid22 y tpl =
     \<lparr>rows = 2, cols = 2, grid = [[1, 0], [0, 1]], cellWidth = 10, cellDepth = 10,
      floor_y = y, rowLabels = None, floor_box = tpl\<rparr>"

text \<open>Two rows of one cell, numbered in reverse by the labels \<open>1\<close> and \<open>0\<close>.\<close>

definition grid_rev :: grid_def where
  "grid_rev =
     \<lparr>rows = 2, cols = 1, grid = [[1], [1]], cellWidth = 10, cellDepth = 10,
      floor_y = 0, rowLabels = Some [JNum 1, JNum 0],
      floor_box = \<lparr>width = 8, height = 1, depth = 8, color = None\<rparr>\<rparr>"

text \<open>Two boxes that carry the same id \<open>A1\<close>, and a move by 1 requested for that id.\<close>

definition twin_scene :: app where
  "twin_scene = (initial [(''A1'', Some mesh0), (''A1'', Some mesh0)])\<lparr>selectedBoxId := Some ''A1''\<rparr>"

definition twin_move_scene :: app where
  "twin_move_scene = handleMove (twin_scene\<lparr>distance := Some 1\<rparr>)"

text \<open>Two rotations of the shared id, each run to completion by one frame of half a second.\<close>

definition twin_rotated_once :: app where
  "twin_rotated_once = frames [1 / 2] (handleRotate twin_scene)"

definition twin_rotated_twice :: app where
  "twin_rotated_twice = frames [1 / 2] (handleRotate twin_rotated_once)"


section \<open>Properties\<close>

subsection \<open>Colour resolution\<close>

text \<open>
  C1, as stated: a box that is selected, carries a car and is in error always shows the
  selection colour. It fails in the blink phase: the error block runs last and writes
  the alarm colour over the selection colour.
\<close>

theorem Shape_color_selected_error_blink_counterexample:
  "Shape_color pallet True [''A1'' \<mapsto> True] [''A1'' \<mapsto> True] True \<noteq> ''yellow''"
  by (simp add: Shape_color_def pallet_def truthy_def base_color_def)

text \<open>
  C1, amended: a box that is selected, carries a car and is in error shows the alarm
  colour \<open>firebrick\<close> while the blink phase is on and the selection colour \<open>yellow\<close>
  while it is off; the precedence, lowest first, is base colour, car present, selection,
  error blink.
\<close>

theorem Shape_color_precedence:
  "(isSelected \<and> truthy (cars (box_id b)) \<and> truthy (errs (box_id b)) \<longrightarrow>
      Shape_color b isSelected cars errs blink =
        (if blink then ''firebrick'' else ''yellow'')) \<and>
   Shape_color b isSelected cars errs blink =
     (if truthy (errs (box_id b)) \<and> blink then ''firebrick''
      else if isSelected then ''yellow''
      else if truthy (cars (box_id b)) then ''lightgray''
      else base_color b)"
  by (simp add: Shape_color_def Let_def)

theorem Shape_color_precedence_witness:
  "True \<and> truthy ([''A1'' \<mapsto> True] (box_id pallet)) \<and>
   Shape_color pallet True [''A1'' \<mapsto> True] [''A1'' \<mapsto> True] False = ''yellow'' \<and>
   Shape_color pallet True [''A1'' \<mapsto> True] [''A1'' \<mapsto> True] True = ''firebrick''"
  using Shape_color_precedence [of True "[''A1'' \<mapsto> True]" pallet "[''A1'' \<mapsto> True]" False]
    Shape_color_precedence [of True "[''A1'' \<mapsto> True]" pallet "[''A1'' \<mapsto> True]" True]
  by (simp add: pallet_def truthy_def)

subsection \<open>One step of an animation\<close>

lemma updateTransform_Some:
  "updateTransform (Some m) (Some ob) ty d =
     (Some (if ty = Move then add_position (axis ob) (step_of ob ty d) m
            else m\<lparr>rot_y := rot_y m + step_of ob ty d\<rparr>),
      Some (ob\<lparr>remaining := remaining ob - step_of ob ty d\<rparr>),
      if \<bar>remaining ob - step_of ob ty d\<bar> < 1 / 1000 then [resolve ob] else [])"
  by (simp add: updateTransform_def Let_def)

lemma position_add_position:
  "position a (add_position b st m) = position a m + (if b = Some a then st else 0)"
  by (cases "(b, st, m)" rule: add_position.cases; cases a) auto

lemma rot_add_position:
  "rot_x (add_position b st m) = rot_x m \<and> rot_y (add_position b st m) = rot_y m \<and>
   rot_z (add_position b st m) = rot_z m"
  by (cases "(b, st, m)" rule: add_position.cases) auto

lemma speed_of_pos: "0 < speed_of ty"
  by (simp add: speed_of_def)

lemma step_of_remaining:
  assumes "0 \<le> t"
  shows "\<bar>remaining ob - step_of ob ty t\<bar> = \<bar>remaining ob\<bar> - min \<bar>remaining ob\<bar> (speed_of ty * t)"
    and "0 \<le> (remaining ob - step_of ob ty t) * remaining ob"
proof -
  have nn: "0 \<le> speed_of ty * t" using assms speed_of_pos[of ty] by simp
  define q where "q = min \<bar>remaining ob\<bar> (speed_of ty * t)"
  have q: "0 \<le> q" "q \<le> \<bar>remaining ob\<bar>" using nn by (simp_all add: q_def)
  have s: "step_of ob ty t = sgn (remaining ob) * q" by (simp add: step_of_def q_def)
  show "\<bar>remaining ob - step_of ob ty t\<bar> = \<bar>remaining ob\<bar> - min \<bar>remaining ob\<bar> (speed_of ty * t)"
    unfolding s q_def[symmetric] using q by (cases "remaining ob" "0::real" rule: linorder_cases) auto
  show "0 \<le> (remaining ob - step_of ob ty t) * remaining ob"
    unfolding s using q by (cases "remaining ob" "0::real" rule: linorder_cases) (auto simp: mult_nonpos_nonpos)
qed

text \<open>
  C4: the step applied by one advance is \<open>sign(remaining) * min(|remaining|, speed * t)\<close>
  with speed 1 for a move and \<open>\<pi>\<close> for a rotation; a move step is added to the named
  position axis only, a rotate step to the Y rotation only; for an elapsed time \<open>t \<ge> 0\<close>
  the remaining amount shrinks in magnitude by the step and keeps its sign (no overshoot).
\<close>

theorem updateTransform_step:
  "\<exists>m' ob' cs.
     updateTransform (Some m) (Some ob) ty t = (Some m', Some ob', cs) \<and>
     step_of ob ty t =
       sgn (remaining ob) * min \<bar>remaining ob\<bar> ((if ty = Move then 1 else pi) * t) \<and>
     remaining ob' = remaining ob - step_of ob ty t \<and>
     (ty = Move \<longrightarrow>
        (\<forall>a. position a m' = position a m + (if axis ob = Some a then step_of ob ty t else 0)) \<and>
        rot_x m' = rot_x m \<and> rot_y m' = rot_y m \<and> rot_z m' = rot_z m) \<and>
     (ty = Rotate \<longrightarrow>
        rot_y m' = rot_y m + step_of ob ty t \<and> rot_x m' = rot_x m \<and> rot_z m' = rot_z m \<and>
        pos_x m' = pos_x m \<and> pos_y m' = pos_y m \<and> pos_z m' = pos_z m) \<and>
     (0 \<le> t \<longrightarrow>
        \<bar>remaining ob'\<bar> = \<bar>remaining ob\<bar> - min \<bar>remaining ob\<bar> ((if ty = Move then 1 else pi) * t) \<and>
        \<bar>remaining ob'\<bar> \<le> \<bar>remaining ob\<bar> \<and>
        0 \<le> remaining ob' * remaining ob)"
proof -
  have a: "0 \<le> t \<longrightarrow> \<bar>remaining ob - step_of ob ty t\<bar> \<le> \<bar>remaining ob\<bar>"
    using step_of_remaining(1)[of t ob ty] speed_of_pos[of ty]
    by (auto simp: min_def)
  show ?thesis
    using step_of_remaining[of t ob ty] a
    by (simp add: updateTransform_Some position_add_position rot_add_position)
      (simp add: step_of_def speed_of_def)
qed

theorem updateTransform_step_witness:
  "(0::real) \<le> 1 / 2 \<and>
   updateTransform (Some mesh0) (Some move_entry) Move (1 / 2) =
     (Some (mesh0\<lparr>pos_x := 1 / 2\<rparr>), Some (move_entry\<lparr>remaining := 3 / 2\<rparr>), []) \<and>
   updateTransform (Some mesh0) (Some rotate_entry) Rotate (1 / 2) =
     (Some (mesh0\<lparr>rot_y := pi / 2\<rparr>), Some (rotate_entry\<lparr>remaining := pi / 2\<rparr>), [])"
  using updateTransform_step [of mesh0 move_entry Move "1 / 2"]
    updateTransform_step [of mesh0 rotate_entry Rotate "1 / 2"] pi_ge_two
  by (simp add: updateTransform_Some step_of_def speed_of_def mesh0_def move_entry_def
      rotate_entry_def)

subsection \<open>Frames act on each box separately\<close>

lemma updateTransform_None [simp]: "updateTransform r None ty d = (r, None, [])"
  by (simp add: updateTransform_def)

lemma updateTransform_unmounted [simp]: "updateTransform None obj ty d = (None, obj, [])"
  by (simp add: updateTransform_def split: option.splits)

lemma updateTransform_shape:
  assumes "updateTransform r obj ty d = (r', obj', cs)"
  shows "(r' = None \<longleftrightarrow> r = None) \<and> (obj' = None \<longleftrightarrow> obj = None) \<and>
         (\<forall>ob'. obj' = Some ob' \<longrightarrow> (\<exists>ob. obj = Some ob \<and> resolve ob' = resolve ob \<and> axis ob' = axis ob)) \<and>
         (cs = [] \<or> (\<exists>ob. obj = Some ob \<and> cs = [resolve ob]))"
  using assms by (cases obj; cases r) (auto simp: updateTransform_Some split: if_splits)

lemma Shape_useFrame_other:
  assumes "Shape_useFrame d (k0, r0) mv rt = (sh', mv', rt', cs)" "k \<noteq> k0"
  shows "mv' k = mv k \<and> rt' k = rt k"
  using assms
  by (auto simp: Shape_useFrame_def store_def split: prod.splits option.splits)

lemma own_callbacks_store:
  assumes "own_callbacks mv rt"
    "updateTransform r (mv k) Move d = (r1, o1, c1)"
    "updateTransform r1 (rt k) Rotate d = (r2, o2, c2)"
  shows "own_callbacks (store mv k o1) (store rt k o2)"
proof -
  have a: "\<forall>ob'. o1 = Some ob' \<longrightarrow> resolve ob' = DeleteMoving k"
    using updateTransform_shape[OF assms(2)] assms(1) by (auto simp: own_callbacks_def)
  have b: "\<forall>ob'. o2 = Some ob' \<longrightarrow> resolve ob' = DeleteRotating k"
    using updateTransform_shape[OF assms(3)] assms(1) by (auto simp: own_callbacks_def)
  show ?thesis
    using assms(1) a b by (auto simp: own_callbacks_def store_def split: option.splits)
qed

lemma callbacks_own:
  assumes "own_callbacks mv rt"
    "updateTransform r (mv k) Move d = (r1, o1, c1)"
    "updateTransform r1 (rt k) Rotate d = (r2, o2, c2)"
  shows "(c1 = [] \<or> c1 = [DeleteMoving k]) \<and> (c2 = [] \<or> c2 = [DeleteRotating k])"
  using updateTransform_shape[OF assms(2)] updateTransform_shape[OF assms(3)] assms(1)
  by (auto simp: own_callbacks_def)

lemma Shape_useFrame_own:
  assumes "Shape_useFrame d (k0, r0) mv rt = (sh', mv', rt', cs)" "own_callbacks mv rt"
  shows "own_callbacks mv' rt' \<and> fst sh' = k0 \<and> set cs \<subseteq> {DeleteMoving k0, DeleteRotating k0}"
proof -
  obtain r1 o1 c1 where u1: "updateTransform r0 (mv k0) Move d = (r1, o1, c1)"
    by (cases "updateTransform r0 (mv k0) Move d") auto
  obtain r2 o2 c2 where u2: "updateTransform r1 (rt k0) Rotate d = (r2, o2, c2)"
    by (cases "updateTransform r1 (rt k0) Rotate d") auto
  have e: "sh' = (k0, r2)" "mv' = store mv k0 o1" "rt' = store rt k0 o2" "cs = c1 @ c2"
    using assms(1) u1 u2 by (simp_all add: Shape_useFrame_def)
  show ?thesis
    using own_callbacks_store[OF assms(2) u1 u2] callbacks_own[OF assms(2) u1 u2] e
    by auto
qed

lemma frame_shapes_keys:
  "frame_shapes d ss mv rt = (ss', mv', rt', cs) \<Longrightarrow> map fst ss' = map fst ss"
proof (induction ss arbitrary: mv rt ss' mv' rt' cs)
  case Nil
  then show ?case by simp
next
  case (Cons sh ss)
  obtain k0 r0 where sh: "sh = (k0, r0)" by (cases sh)
  obtain sh1 mv1 rt1 cs1 where a: "Shape_useFrame d (k0, r0) mv rt = (sh1, mv1, rt1, cs1)"
    by (cases "Shape_useFrame d (k0, r0) mv rt") auto
  obtain ss2 mv2 rt2 cs2 where b: "frame_shapes d ss mv1 rt1 = (ss2, mv2, rt2, cs2)"
    by (cases "frame_shapes d ss mv1 rt1") auto
  have "fst sh1 = k0" using a by (auto simp: Shape_useFrame_def split: prod.splits)
  then show ?case using Cons.prems Cons.IH[OF b] a b sh by auto
qed

lemma frame_shapes_other:
  "frame_shapes d ss mv rt = (ss', mv', rt', cs) \<Longrightarrow> k \<notin> fst ` set ss \<Longrightarrow>
   mv' k = mv k \<and> rt' k = rt k"
proof (induction ss arbitrary: mv rt ss' mv' rt' cs)
  case Nil
  then show ?case by simp
next
  case (Cons sh ss)
  obtain k0 r0 where sh: "sh = (k0, r0)" by (cases sh)
  obtain sh1 mv1 rt1 cs1 where a: "Shape_useFrame d (k0, r0) mv rt = (sh1, mv1, rt1, cs1)"
    by (cases "Shape_useFrame d (k0, r0) mv rt") auto
  obtain ss2 mv2 rt2 cs2 where b: "frame_shapes d ss mv1 rt1 = (ss2, mv2, rt2, cs2)"
    by (cases "frame_shapes d ss mv1 rt1") auto
  have k: "k \<noteq> k0" "k \<notin> fst ` set ss" using Cons.prems(2) sh by auto
  have "mv2 k = mv1 k \<and> rt2 k = rt1 k" using Cons.IH[OF b k(2)] .
  moreover have "mv1 k = mv k \<and> rt1 k = rt k" using Shape_useFrame_other[OF a k(1)] .
  moreover have "mv' = mv2" "rt' = rt2" using Cons.prems(1) a b sh by auto
  ultimately show ?case by simp
qed

lemma frame_shapes_own:
  "frame_shapes d ss mv rt = (ss', mv', rt', cs) \<Longrightarrow> own_callbacks mv rt \<Longrightarrow>
   own_callbacks mv' rt' \<and>
   set cs \<subseteq> DeleteMoving ` fst ` set ss \<union> DeleteRotating ` fst ` set ss"
proof (induction ss arbitrary: mv rt ss' mv' rt' cs)
  case Nil
  then show ?case by simp
next
  case (Cons sh ss)
  obtain k0 r0 where sh: "sh = (k0, r0)" by (cases sh)
  obtain sh1 mv1 rt1 cs1 where a: "Shape_useFrame d (k0, r0) mv rt = (sh1, mv1, rt1, cs1)"
    by (cases "Shape_useFrame d (k0, r0) mv rt") auto
  obtain ss2 mv2 rt2 cs2 where b: "frame_shapes d ss mv1 rt1 = (ss2, mv2, rt2, cs2)"
    by (cases "frame_shapes d ss mv1 rt1") auto
  have o1: "own_callbacks mv1 rt1" and c1: "set cs1 \<subseteq> {DeleteMoving k0, DeleteRotating k0}"
    using Shape_useFrame_own[OF a Cons.prems(2)] by auto
  have e: "mv' = mv2" "rt' = rt2" "cs = cs1 @ cs2" using Cons.prems(1) a b sh by auto
  show ?case using Cons.IH[OF b o1] c1 e sh by auto
qed

lemma frame_shapes_key:
  assumes "frame_shapes d ss mv rt = (ss', mv', rt', cs)"
    and "distinct (map fst ss)" and "map_of ss k = Some r" and "own_callbacks mv rt"
    and "updateTransform r (mv k) Move d = (r1, o1, c1)"
    and "updateTransform r1 (rt k) Rotate d = (r2, o2, c2)"
  shows "map_of ss' k = Some r2 \<and> mv' k = o1 \<and> rt' k = o2 \<and>
         count_list cs (DeleteMoving k) = length c1 \<and>
         count_list cs (DeleteRotating k) = length c2"
  using assms
proof (induction ss arbitrary: mv rt ss' mv' rt' cs)
  case Nil
  then show ?case by simp
next
  case (Cons sh ss)
  obtain k0 r0 where sh: "sh = (k0, r0)" by (cases sh)
  obtain sh1 mv1 rt1 cs1 where a: "Shape_useFrame d (k0, r0) mv rt = (sh1, mv1, rt1, cs1)"
    by (cases "Shape_useFrame d (k0, r0) mv rt") auto
  obtain ss2 mv2 rt2 cs2 where b: "frame_shapes d ss mv1 rt1 = (ss2, mv2, rt2, cs2)"
    by (cases "frame_shapes d ss mv1 rt1") auto
  have e: "ss' = sh1 # ss2" "mv' = mv2" "rt' = rt2" "cs = cs1 @ cs2"
    using Cons.prems(1) a b sh by auto
  have own1: "own_callbacks mv1 rt1" and cs1: "set cs1 \<subseteq> {DeleteMoving k0, DeleteRotating k0}"
    and sh1: "fst sh1 = k0"
    using Shape_useFrame_own[OF a Cons.prems(4)] by auto
  have d: "distinct (map fst ss)" "k0 \<notin> fst ` set ss" using Cons.prems(2) sh by auto
  show ?case
  proof (cases "k = k0")
    case True
    then have r: "r0 = r" using Cons.prems(3) sh by simp
    have f: "sh1 = (k, r2)" "mv1 = store mv k o1" "rt1 = store rt k o2" "cs1 = c1 @ c2"
      using a Cons.prems(5,6) True r by (simp_all add: Shape_useFrame_def)
    have g: "mv2 k = mv1 k \<and> rt2 k = rt1 k"
      using frame_shapes_other[OF b] d(2) True by simp
    have h: "mv1 k = o1" "rt1 k = o2"
      using f updateTransform_shape[OF Cons.prems(5)] updateTransform_shape[OF Cons.prems(6)]
      by (auto simp: store_def split: option.splits)
    have i: "DeleteMoving k \<notin> set cs2" "DeleteRotating k \<notin> set cs2"
      using frame_shapes_own[OF b own1] d(2) True by auto
    have j: "(c1 = [] \<or> c1 = [DeleteMoving k]) \<and> (c2 = [] \<or> c2 = [DeleteRotating k])"
      using callbacks_own[OF Cons.prems(4,5,6)] .
    have "count_list cs2 (DeleteMoving k) = 0" "count_list cs2 (DeleteRotating k) = 0"
      using i by (simp_all add: count_list_0_iff)
    then show ?thesis using e f g h j by auto
  next
    case False
    have m: "map_of ss k = Some r" using Cons.prems(3) sh False by simp
    have same: "mv1 k = mv k \<and> rt1 k = rt k" using Shape_useFrame_other[OF a False] .
    have u: "updateTransform r (mv1 k) Move d = (r1, o1, c1)"
      "updateTransform r1 (rt1 k) Rotate d = (r2, o2, c2)"
      using Cons.prems(5,6) same by simp_all
    have ih: "map_of ss2 k = Some r2 \<and> mv2 k = o1 \<and> rt2 k = o2 \<and>
         count_list cs2 (DeleteMoving k) = length c1 \<and>
         count_list cs2 (DeleteRotating k) = length c2"
      using Cons.IH[OF b d(1) m own1 u] .
    have "DeleteMoving k \<notin> set cs1" "DeleteRotating k \<notin> set cs1" using cs1 False by auto
    then have "count_list cs1 (DeleteMoving k) = 0" "count_list cs1 (DeleteRotating k) = 0"
      by (simp_all add: count_list_0_iff)
    moreover have "map_of (sh1 # ss2) k = map_of ss2 k"
      using sh1 False by (cases sh1) auto
    ultimately show ?thesis using ih e by simp
  qed
qed

lemma fold_run_callback:
  "moving (fold run_callback cs s) = (\<lambda>k. if DeleteMoving k \<in> set cs then None else moving s k) \<and>
   rotating (fold run_callback cs s) = (\<lambda>k. if DeleteRotating k \<in> set cs then None else rotating s k) \<and>
   shapes (fold run_callback cs s) = shapes s \<and>
   selectedBoxId (fold run_callback cs s) = selectedBoxId s \<and>
   resolveCalls (fold run_callback cs s) = resolveCalls s"
proof (induction cs arbitrary: s)
  case Nil
  then show ?case by simp
next
  case (Cons c cs)
  show ?case by (cases c) (auto simp: Cons.IH fun_eq_iff)
qed

lemma frame_shapes_dom:
  "frame_shapes d ss mv rt = (ss', mv', rt', cs) \<Longrightarrow>
   (mv' k = None \<longleftrightarrow> mv k = None) \<and> (rt' k = None \<longleftrightarrow> rt k = None)"
proof (induction ss arbitrary: mv rt ss' mv' rt' cs)
  case Nil
  then show ?case by simp
next
  case (Cons sh ss)
  obtain k0 r0 where sh: "sh = (k0, r0)" by (cases sh)
  obtain r1 o1 c1 where u1: "updateTransform r0 (mv k0) Move d = (r1, o1, c1)"
    by (cases "updateTransform r0 (mv k0) Move d") auto
  obtain r2 o2 c2 where u2: "updateTransform r1 (rt k0) Rotate d = (r2, o2, c2)"
    by (cases "updateTransform r1 (rt k0) Rotate d") auto
  obtain ss2 mv2 rt2 cs2 where
    b: "frame_shapes d ss (store mv k0 o1) (store rt k0 o2) = (ss2, mv2, rt2, cs2)"
    by (cases "frame_shapes d ss (store mv k0 o1) (store rt k0 o2)") auto
  have e: "mv' = mv2" "rt' = rt2"
    using Cons.prems(1) u1 u2 b sh by (simp_all add: Shape_useFrame_def)
  have "(store mv k0 o1 k = None \<longleftrightarrow> mv k = None) \<and> (store rt k0 o2 k = None \<longleftrightarrow> rt k = None)"
    using updateTransform_shape[OF u1] updateTransform_shape[OF u2]
    by (auto simp: store_def split: option.splits)
  then show ?case using Cons.IH[OF b] e by simp
qed

lemma frame_fields:
  "selectedBoxId (frame d s) = selectedBoxId s \<and> map fst (shapes (frame d s)) = map fst (shapes s)"
proof -
  obtain ss mv rt cs where a: "frame_shapes d (shapes s) (moving s) (rotating s) = (ss, mv, rt, cs)"
    by (cases "frame_shapes d (shapes s) (moving s) (rotating s)") auto
  show ?thesis using a frame_shapes_keys[OF a] by (simp add: frame_def fold_run_callback)
qed

lemma frame_absent:
  "(moving s k = None \<longrightarrow> moving (frame d s) k = None) \<and>
   (rotating s k = None \<longrightarrow> rotating (frame d s) k = None)"
proof -
  obtain ss mv rt cs where a: "frame_shapes d (shapes s) (moving s) (rotating s) = (ss, mv, rt, cs)"
    by (cases "frame_shapes d (shapes s) (moving s) (rotating s)") auto
  show ?thesis using a frame_shapes_dom[OF a, of k] by (simp add: frame_def fold_run_callback)
qed

lemma own_callbacks_delete:
  "own_callbacks mv rt \<Longrightarrow>
   own_callbacks (\<lambda>k. if P k then None else mv k) (\<lambda>k. if Q k then None else rt k)"
  by (simp add: own_callbacks_def)

lemma wf_frame: "wf s \<Longrightarrow> wf (frame d s)"
proof -
  assume w: "wf s"
  obtain ss mv rt cs where a: "frame_shapes d (shapes s) (moving s) (rotating s) = (ss, mv, rt, cs)"
    by (cases "frame_shapes d (shapes s) (moving s) (rotating s)") auto
  have "own_callbacks mv rt" using frame_shapes_own[OF a] w by (simp add: wf_def)
  then have "own_callbacks (moving (frame d s)) (rotating (frame d s))"
    using a by (simp add: frame_def fold_run_callback own_callbacks_delete)
  moreover have "distinct (map fst (shapes (frame d s)))"
    using frame_fields[of d s] w by (simp add: wf_def)
  ultimately show ?thesis by (simp add: wf_def)
qed

lemma frame_key:
  assumes "wf s" and "map_of (shapes s) k = Some r"
    and "updateTransform r (moving s k) Move d = (r1, o1, c1)"
    and "updateTransform r1 (rotating s k) Rotate d = (r2, o2, c2)"
  shows "map_of (shapes (frame d s)) k = Some r2"
    and "moving (frame d s) k = (if c1 = [] then o1 else None)"
    and "rotating (frame d s) k = (if c2 = [] then o2 else None)"
    and "count_list (resolveCalls (frame d s)) (DeleteMoving k) =
           count_list (resolveCalls s) (DeleteMoving k) + length c1"
    and "count_list (resolveCalls (frame d s)) (DeleteRotating k) =
           count_list (resolveCalls s) (DeleteRotating k) + length c2"
proof -
  obtain ss mv rt cs where a: "frame_shapes d (shapes s) (moving s) (rotating s) = (ss, mv, rt, cs)"
    by (cases "frame_shapes d (shapes s) (moving s) (rotating s)") auto
  have w: "distinct (map fst (shapes s))" "own_callbacks (moving s) (rotating s)"
    using assms(1) by (simp_all add: wf_def)
  note key = frame_shapes_key[OF a w(1) assms(2) w(2) assms(3,4)]
  have m: "DeleteMoving k \<in> set cs \<longleftrightarrow> c1 \<noteq> []"
    using key by (metis count_list_0_iff length_0_conv)
  have r: "DeleteRotating k \<in> set cs \<longleftrightarrow> c2 \<noteq> []"
    using key by (metis count_list_0_iff length_0_conv)
  show "map_of (shapes (frame d s)) k = Some r2"
    using a key by (simp add: frame_def fold_run_callback)
  show "moving (frame d s) k = (if c1 = [] then o1 else None)"
    using a key m by (simp add: frame_def fold_run_callback)
  show "rotating (frame d s) k = (if c2 = [] then o2 else None)"
    using a key r by (simp add: frame_def fold_run_callback)
  show "count_list (resolveCalls (frame d s)) (DeleteMoving k) =
           count_list (resolveCalls s) (DeleteMoving k) + length c1"
    using a key by (simp add: frame_def fold_run_callback)
  show "count_list (resolveCalls (frame d s)) (DeleteRotating k) =
           count_list (resolveCalls s) (DeleteRotating k) + length c2"
    using a key by (simp add: frame_def fold_run_callback)
qed

subsection \<open>Admission of move and rotate requests\<close>

text \<open>
  C5: \<^verbatim>\<open>handleMove\<close> changes nothing when the distance is unparseable or zero or when
  the selected box has a move or a rotate entry, and \<^verbatim>\<open>handleRotate\<close> changes nothing
  when the selected box has an entry of either kind; without a selection (\<^verbatim>\<open>null\<close> or
  the empty string) both only record the warning \<open>No pallet selected!\<close>, and the maps and
  every other field stay as they are.
\<close>

theorem rejected_requests:
  "(selectedBoxId s = None \<or> selectedBoxId s = Some [] \<longrightarrow>
      handleMove s = s\<lparr>alerts := alerts s @ [''No pallet selected!'']\<rparr> \<and>
      handleRotate s = s\<lparr>alerts := alerts s @ [''No pallet selected!'']\<rparr>) \<and>
   (selectedBoxId s = Some k \<and> k \<noteq> [] \<and>
      (distance s = None \<or> distance s = Some 0 \<or> moving s k \<noteq> None \<or> rotating s k \<noteq> None) \<longrightarrow>
      handleMove s = s) \<and>
   (selectedBoxId s = Some k \<and> k \<noteq> [] \<and> (moving s k \<noteq> None \<or> rotating s k \<noteq> None) \<longrightarrow>
      handleRotate s = s)"
  by (auto simp: handleMove_def handleRotate_def alert_def split: option.splits)

theorem rejected_requests_witness:
  "selectedBoxId (initial []) = None \<and>
   handleMove (initial []) = (initial [])\<lparr>alerts := [''No pallet selected!'']\<rparr> \<and>
   handleRotate (initial []) = (initial [])\<lparr>alerts := [''No pallet selected!'']\<rparr> \<and>
   selectedBoxId scene = Some ''A1'' \<and> distance scene = Some 0 \<and> handleMove scene = scene \<and>
   rotating (handleRotate scene) ''A1'' \<noteq> None \<and>
   handleMove ((handleRotate scene)\<lparr>distance := Some 5\<rparr>) = (handleRotate scene)\<lparr>distance := Some 5\<rparr> \<and>
   handleRotate (handleRotate scene) = handleRotate scene"
  using rejected_requests [of "initial []" "''A1''"] rejected_requests [of scene "''A1''"]
    rejected_requests [of "(handleRotate scene)\<lparr>distance := Some 5\<rparr>" "''A1''"]
    rejected_requests [of "handleRotate scene" "''A1''"]
  by (simp add: scene_def initial_def handleRotate_def)

lemma exclusive_act: "exclusive s \<Longrightarrow> exclusive (act a s)"
proof (cases a)
  case HandleMove
  assume "exclusive s"
  then show ?thesis using HandleMove
    by (auto simp: exclusive_def handleMove_def alert_def split: option.splits)
next
  case HandleRotate
  assume "exclusive s"
  then show ?thesis using HandleRotate
    by (auto simp: exclusive_def handleRotate_def alert_def split: option.splits)
next
  case (Frame d)
  assume "exclusive s"
  then show ?thesis using Frame frame_absent[of s _ d]
    unfolding exclusive_def by (metis act.simps(3) not_None_eq)
qed (auto simp: exclusive_def toggleCar_def toggleError_def)

lemma exclusive_run: "exclusive s \<Longrightarrow> exclusive (run as s)"
  by (induction as arbitrary: s) (auto simp: exclusive_act)

lemma exclusive_initial: "exclusive (initial ss)"
  by (simp add: exclusive_def initial_def)

text \<open>
  C6: in every state reached from the initial state by any sequence of actions (move and
  rotate requests, frames, and the other user actions) no box id has both a move entry
  and a rotate entry; a move request for a box with a rotate entry, and a rotate request
  for a box with a move entry, leave both maps as they are.
\<close>

theorem never_both_animations:
  "(moving (run as (initial ss)) k = None \<or> rotating (run as (initial ss)) k = None) \<and>
   (selectedBoxId (run as (initial ss)) = Some k \<and> rotating (run as (initial ss)) k \<noteq> None \<longrightarrow>
      moving (handleMove (run as (initial ss))) = moving (run as (initial ss)) \<and>
      rotating (handleMove (run as (initial ss))) = rotating (run as (initial ss))) \<and>
   (selectedBoxId (run as (initial ss)) = Some k \<and> moving (run as (initial ss)) k \<noteq> None \<longrightarrow>
      moving (handleRotate (run as (initial ss))) = moving (run as (initial ss)) \<and>
      rotating (handleRotate (run as (initial ss))) = rotating (run as (initial ss)))"
proof -
  have "exclusive (run as (initial ss))"
    using exclusive_run[OF exclusive_initial] .
  then have a: "moving (run as (initial ss)) k = None \<or> rotating (run as (initial ss)) k = None"
    by (simp add: exclusive_def)
  show ?thesis using a
    by (auto simp: handleMove_def handleRotate_def alert_def split: option.splits)
qed

theorem never_both_animations_witness:
  "selectedBoxId (run [SetSelectedBoxId (Some ''A1''), HandleRotate] (initial [(''A1'', Some mesh0)])) = Some ''A1'' \<and>
   rotating (run [SetSelectedBoxId (Some ''A1''), HandleRotate] (initial [(''A1'', Some mesh0)])) ''A1'' \<noteq> None \<and>
   moving (handleMove (run [SetSelectedBoxId (Some ''A1''), HandleRotate] (initial [(''A1'', Some mesh0)]))) ''A1'' = None \<and>
   selectedBoxId (run [SetSelectedBoxId (Some ''A1''), SetDistance (Some 2), HandleMove] (initial [(''A1'', Some mesh0)])) = Some ''A1'' \<and>
   moving (run [SetSelectedBoxId (Some ''A1''), SetDistance (Some 2), HandleMove] (initial [(''A1'', Some mesh0)])) ''A1'' \<noteq> None \<and>
   rotating (handleRotate (run [SetSelectedBoxId (Some ''A1''), SetDistance (Some 2), HandleMove] (initial [(''A1'', Some mesh0)]))) ''A1'' = None"
  using never_both_animations [of "[SetSelectedBoxId (Some ''A1''), HandleRotate]" "[(''A1'', Some mesh0)]" "''A1''"]
    never_both_animations [of "[SetSelectedBoxId (Some ''A1''), SetDistance (Some 2), HandleMove]" "[(''A1'', Some mesh0)]" "''A1''"]
  by (simp add: initial_def handleRotate_def handleMove_def)

subsection \<open>The lifetime of an animation entry\<close>

lemma updateTransform_mounted:
  "\<exists>m' ob' cs. updateTransform (Some m) obj ty d = (Some m', ob', cs) \<and>
     (ty = Rotate \<longrightarrow> driven Move m' = driven Move m) \<and>
     (ty = Move \<longrightarrow> driven Rotate m' = driven Rotate m) \<and>
     (obj = None \<longrightarrow> m' = m \<and> ob' = None \<and> cs = [])"
  by (cases obj) (auto simp: updateTransform_Some rot_add_position)

lemma driven_Move_position: "driven Move m' = driven Move m \<Longrightarrow> position a m' = position a m"
  by (cases a) auto

lemma frame_entry:
  assumes w: "wf s" and sh: "map_of (shapes s) k = Some (Some m)" and e: "entries ty s k = Some ob"
  shows "entries ty (frame d s) k =
           (if \<bar>remaining ob - step_of ob ty d\<bar> < 1 / 1000 then None
            else Some (ob\<lparr>remaining := remaining ob - step_of ob ty d\<rparr>))"
    and "calls ty k (frame d s) =
           calls ty k s + (if \<bar>remaining ob - step_of ob ty d\<bar> < 1 / 1000 then 1 else 0)"
    and "\<exists>m'. map_of (shapes (frame d s)) k = Some (Some m') \<and>
           (\<forall>a. coord ty a m' = coord ty a m +
                  (if ty = Move \<and> axis ob \<noteq> Some a then 0 else step_of ob ty d))"
proof -
  obtain m1 o1 c1 where u1: "updateTransform (Some m) (moving s k) Move d = (Some m1, o1, c1)"
    and p1: "driven Rotate m1 = driven Rotate m" "moving s k = None \<longrightarrow> m1 = m"
    using updateTransform_mounted[of m "moving s k" Move d] by auto
  obtain m2 o2 c2 where u2: "updateTransform (Some m1) (rotating s k) Rotate d = (Some m2, o2, c2)"
    and p2: "driven Move m2 = driven Move m1" "rotating s k = None \<longrightarrow> m2 = m1"
    using updateTransform_mounted[of m1 "rotating s k" Rotate d] by auto
  note fk = frame_key[OF w sh u1 u2]
  show "entries ty (frame d s) k =
           (if \<bar>remaining ob - step_of ob ty d\<bar> < 1 / 1000 then None
            else Some (ob\<lparr>remaining := remaining ob - step_of ob ty d\<rparr>))"
    using fk(2,3) u1 u2 e by (cases ty) (auto simp: updateTransform_Some)
  show "calls ty k (frame d s) =
           calls ty k s + (if \<bar>remaining ob - step_of ob ty d\<bar> < 1 / 1000 then 1 else 0)"
    using fk(4,5) u1 u2 e by (cases ty) (auto simp: updateTransform_Some calls_def)
  have "\<forall>a. coord ty a m2 = coord ty a m +
                  (if ty = Move \<and> axis ob \<noteq> Some a then 0 else step_of ob ty d)"
  proof (cases ty)
    case Move
    then have "m1 = add_position (axis ob) (step_of ob Move d) m"
      using u1 e by (simp add: updateTransform_Some)
    then show ?thesis using Move driven_Move_position[OF p2(1)]
      by (simp add: position_add_position)
  next
    case Rotate
    then have "m2 = m1\<lparr>rot_y := rot_y m1 + step_of ob Rotate d\<rparr>"
      using u2 e by (simp add: updateTransform_Some)
    then show ?thesis using Rotate p1(1) by simp
  qed
  then show "\<exists>m'. map_of (shapes (frame d s)) k = Some (Some m') \<and>
           (\<forall>a. coord ty a m' = coord ty a m +
                  (if ty = Move \<and> axis ob \<noteq> Some a then 0 else step_of ob ty d))"
    using fk(1) by blast
qed

lemma frame_idle:
  assumes w: "wf s" and sh: "map_of (shapes s) k = Some (Some m)" and e: "entries ty s k = None"
  shows "\<exists>m'. map_of (shapes (frame d s)) k = Some (Some m') \<and> driven ty m' = driven ty m \<and>
           entries ty (frame d s) k = None \<and> calls ty k (frame d s) = calls ty k s"
proof -
  obtain m1 o1 c1 where u1: "updateTransform (Some m) (moving s k) Move d = (Some m1, o1, c1)"
    and p1: "driven Rotate m1 = driven Rotate m"
      "moving s k = None \<longrightarrow> m1 = m \<and> o1 = None \<and> c1 = []"
    using updateTransform_mounted[of m "moving s k" Move d] by auto
  obtain m2 o2 c2 where u2: "updateTransform (Some m1) (rotating s k) Rotate d = (Some m2, o2, c2)"
    and p2: "driven Move m2 = driven Move m1"
      "rotating s k = None \<longrightarrow> m2 = m1 \<and> o2 = None \<and> c2 = []"
    using updateTransform_mounted[of m1 "rotating s k" Rotate d] by auto
  note fk = frame_key[OF w sh u1 u2]
  show ?thesis
    using fk p1 p2 e by (cases ty) (auto simp: calls_def)
qed

lemma frame_mounted:
  assumes "wf s" and "map_of (shapes s) k = Some (Some m)"
  shows "\<exists>m'. map_of (shapes (frame d s)) k = Some (Some m')"
proof (cases "entries Move s k")
  case None
  then show ?thesis using frame_idle[OF assms None, of d] by blast
next
  case (Some ob)
  then show ?thesis using frame_entry(3)[OF assms Some, of d] by blast
qed

lemma wf_frames: "wf s \<Longrightarrow> wf (frames ts s)"
  by (induction ts arbitrary: s) (auto simp: wf_frame)

lemma frames_append: "frames (ts @ us) s = frames us (frames ts s)"
  by (induction ts arbitrary: s) auto

lemma frames_idle:
  assumes "wf s" and "map_of (shapes s) k = Some (Some m)" and "entries ty s k = None"
  shows "\<exists>m'. map_of (shapes (frames ts s)) k = Some (Some m') \<and> driven ty m' = driven ty m \<and>
           entries ty (frames ts s) k = None \<and> calls ty k (frames ts s) = calls ty k s"
  using assms
proof (induction ts arbitrary: s m)
  case Nil
  then show ?case by simp
next
  case (Cons t ts)
  obtain m1 where a: "map_of (shapes (frame t s)) k = Some (Some m1)" "driven ty m1 = driven ty m"
    "entries ty (frame t s) k = None" "calls ty k (frame t s) = calls ty k s"
    using frame_idle[OF Cons.prems, of t] by blast
  show ?case using Cons.IH[OF wf_frame[OF Cons.prems(1)] a(1) a(3)] a(2,4) by auto
qed

lemma frames_mounted:
  assumes "wf s" and "map_of (shapes s) k = Some (Some m)"
  shows "\<exists>m'. map_of (shapes (frames ts s)) k = Some (Some m')"
  using assms
proof (induction ts arbitrary: s m)
  case Nil
  then show ?case by simp
next
  case (Cons t ts)
  obtain m1 where a: "map_of (shapes (frame t s)) k = Some (Some m1)"
    using frame_mounted[OF Cons.prems, of t] by blast
  show ?case using Cons.IH[OF wf_frame[OF Cons.prems(1)] a] by simp
qed

lemma frames_calls:
  assumes "wf s" and "map_of (shapes s) k = Some (Some m)" and "entries ty s k = Some ob"
  shows "calls ty k (frames ts s) =
           calls ty k s + (if entries ty (frames ts s) k = None then 1 else 0)"
  using assms
proof (induction ts arbitrary: s m ob)
  case Nil
  then show ?case by simp
next
  case (Cons t ts)
  note fe = frame_entry[OF Cons.prems, of t]
  obtain m1 where m1: "map_of (shapes (frame t s)) k = Some (Some m1)" using fe(3) by blast
  note w1 = wf_frame[OF Cons.prems(1), of t]
  show ?case
  proof (cases "\<bar>remaining ob - step_of ob ty t\<bar> < 1 / 1000")
    case True
    then have e1: "entries ty (frame t s) k = None" using fe(1) by simp
    show ?thesis using frames_idle[OF w1 m1 e1, of ts] fe(2) True by auto
  next
    case False
    then have e1: "entries ty (frame t s) k = Some (ob\<lparr>remaining := remaining ob - step_of ob ty t\<rparr>)"
      using fe(1) by simp
    show ?thesis using Cons.IH[OF w1 m1 e1] fe(2) False by simp
  qed
qed

lemma frames_progress:
  assumes "wf s" and "map_of (shapes s) k = Some (Some m)" and "entries ty s k = Some ob"
    and "ty = Move \<longrightarrow> axis ob = Some a"
  shows "\<exists>m'. map_of (shapes (frames ts s)) k = Some (Some m') \<and>
           (case entries ty (frames ts s) k of
              Some ob' \<Rightarrow> coord ty a m' + remaining ob' = coord ty a m + remaining ob \<and>
                          (ts \<noteq> [] \<longrightarrow> 1 / 1000 \<le> \<bar>remaining ob'\<bar>)
            | None \<Rightarrow> \<bar>coord ty a m + remaining ob - coord ty a m'\<bar> < 1 / 1000)"
  using assms
proof (induction ts arbitrary: s m ob)
  case Nil
  then show ?case by simp
next
  case (Cons t ts)
  note fe = frame_entry[OF Cons.prems(1,2,3), of t]
  obtain m1 where m1: "map_of (shapes (frame t s)) k = Some (Some m1)"
    and c0: "\<forall>a. coord ty a m1 = coord ty a m +
                  (if ty = Move \<and> axis ob \<noteq> Some a then 0 else step_of ob ty t)"
    using fe(3) by blast
  have c1: "coord ty a m1 = coord ty a m + step_of ob ty t"
    using spec[OF c0, of a] Cons.prems(4) by (cases ty) simp_all
  note w1 = wf_frame[OF Cons.prems(1), of t]
  show ?case
  proof (cases "\<bar>remaining ob - step_of ob ty t\<bar> < 1 / 1000")
    case True
    then have e1: "entries ty (frame t s) k = None" using fe(1) by simp
    obtain m' where m': "map_of (shapes (frames ts (frame t s))) k = Some (Some m')"
      "driven ty m' = driven ty m1" "entries ty (frames ts (frame t s)) k = None"
      using frames_idle[OF w1 m1 e1, of ts] by blast
    have "coord ty a m' = coord ty a m1"
    proof (cases ty)
      case Move
      then show ?thesis using driven_Move_position[of m' m1 a] m'(2) by simp
    next
      case Rotate
      then show ?thesis using m'(2) by simp
    qed
    then have "\<bar>coord ty a m + remaining ob - coord ty a m'\<bar> < 1 / 1000"
      using c1 True by simp
    then show ?thesis using m'(1,3) by simp
  next
    case False
    define ob1 where "ob1 = ob\<lparr>remaining := remaining ob - step_of ob ty t\<rparr>"
    have e1: "entries ty (frame t s) k = Some ob1"
      using fe(1) False by (simp add: ob1_def)
    have ax: "ty = Move \<longrightarrow> axis ob1 = Some a" using Cons.prems(4) by (simp add: ob1_def)
    obtain m' where m': "map_of (shapes (frames ts (frame t s))) k = Some (Some m')"
      and ih: "(case entries ty (frames ts (frame t s)) k of
              Some ob' \<Rightarrow> coord ty a m' + remaining ob' = coord ty a m1 + remaining ob1 \<and>
                          (ts \<noteq> [] \<longrightarrow> 1 / 1000 \<le> \<bar>remaining ob'\<bar>)
            | None \<Rightarrow> \<bar>coord ty a m1 + remaining ob1 - coord ty a m'\<bar> < 1 / 1000)"
      using Cons.IH[OF w1 m1 e1 ax] by blast
    have r1: "coord ty a m1 + remaining ob1 = coord ty a m + remaining ob"
      using c1 by (simp add: ob1_def)
    have big: "1 / 1000 \<le> \<bar>remaining ob1\<bar>" using False by (simp add: ob1_def)
    show ?thesis
    proof (cases ts)
      case Nil
      then show ?thesis using m1 e1 r1 big by simp
    next
      case (Cons u us)
      then have ne: "ts \<noteq> []" by simp
      show ?thesis
      proof (cases "entries ty (frames ts (frame t s)) k")
        case None
        then show ?thesis using m' ih r1 by simp
      next
        case (Some ob')
        then show ?thesis using m' ih r1 ne by simp
      qed
    qed
  qed
qed


lemma meshOf_Some: "meshOf s k = Some m \<longleftrightarrow> map_of (shapes s) k = Some (Some m)"
  by (auto simp: meshOf_def split: option.splits)


lemmas eval_defs = scene_def initial_def mesh0_def handleMove_def handleRotate_def
  frame_def Shape_useFrame_def updateTransform_Some step_of_def speed_of_def store_def
  meshOf_def move_scene_def

lemma wf_scene: "wf scene"
  by (simp add: wf_def own_callbacks_def eval_defs)

lemma scene_facts:
  "meshOf scene ''A1'' = Some mesh0" "selectedBoxId scene = Some ''A1''"
  "moving scene ''A1'' = None" "rotating scene ''A1'' = None"
  by (simp_all add: scene_def initial_def meshOf_def)

lemma wf_move_scene: "wf move_scene"
  by (simp add: wf_def own_callbacks_def eval_defs)

lemma move_scene_facts:
  "meshOf move_scene ''A1'' = Some mesh0"
  "entries Move move_scene ''A1'' = Some \<lparr>axis = Some X, remaining = 1, resolve = DeleteMoving ''A1''\<rparr>"
  by (simp_all add: eval_defs)

lemmas twin_defs = twin_scene_def twin_move_scene_def tick_def calls_def

lemma frame_tick:
  "frame delta s =
     fold run_callback (drop (length (resolveCalls s)) (resolveCalls (tick delta s))) (tick delta s)"
  by (simp add: frame_def tick_def split: prod.splits)

text \<open>
  C2, as stated: the completion callback of every entry is invoked exactly once and no
  step is applied after completion. It fails in two ways, since \<^verbatim>\<open>updateTransform\<close> keeps
  no record of completion and relies on the entry leaving the map. With two boxes of one
  id both shapes advance the shared entry in the same frame: after a move by 1 and a
  frame of \<open>2047/2048\<close> seconds the first shape completes the entry, the second applies a
  further step of \<open>1/2048\<close> and invokes the callback again. And when a second frame runs
  before the queued removal is applied, it steps the mesh and invokes the callback again.
\<close>

theorem entry_completes_once_counterexample:
  "calls Move ''A1'' twin_move_scene = 0 \<and>
   calls Move ''A1'' (frame (2047 / 2048) twin_move_scene) = 2 \<and>
   shapes (frame (2047 / 2048) twin_move_scene) =
     [(''A1'', Some (mesh0\<lparr>pos_x := 2047 / 2048\<rparr>)), (''A1'', Some (mesh0\<lparr>pos_x := 1 / 2048\<rparr>))] \<and>
   calls Move ''A1'' move_scene = 0 \<and>
   calls Move ''A1'' (tick (1 / 64) (tick (2047 / 2048) move_scene)) = 2 \<and>
   meshOf (tick (2047 / 2048) move_scene) ''A1'' = Some (mesh0\<lparr>pos_x := 2047 / 2048\<rparr>) \<and>
   meshOf (tick (1 / 64) (tick (2047 / 2048) move_scene)) ''A1'' = Some (mesh0\<lparr>pos_x := 1\<rparr>)"
  by (simp add: eval_defs twin_defs)

text \<open>
  C2, amended: for an entry of either kind, as the handlers create it, on a mounted box
  of a scene whose box ids are pairwise distinct, and with every frame followed by the
  re-render that applies the queued removals before the next frame: the frame whose step
  brings \<open>|remaining|\<close> below 0.001 removes the entry from its map; over any run of frames
  the completion callback of the entry has been invoked once if the entry is gone and
  not at all while it is still there; and once the entry is gone, further frames neither
  invoke the callback again nor change what an animation of that kind writes on the mesh.
\<close>

theorem entry_completes_once:
  assumes "wf s" and "meshOf s k = Some m" and "entries ty s k = Some ob"
  shows "(entries ty (frame t s) k = None \<longleftrightarrow> \<bar>remaining ob - step_of ob ty t\<bar> < 1 / 1000) \<and>
         calls ty k (frames ts s) =
           calls ty k s + (if entries ty (frames ts s) k = None then 1 else 0) \<and>
         (entries ty (frames ts s) k = None \<longrightarrow>
            calls ty k (frames us (frames ts s)) = calls ty k (frames ts s) \<and>
            entries ty (frames us (frames ts s)) k = None \<and>
            map_option (driven ty) (meshOf (frames us (frames ts s)) k) =
              map_option (driven ty) (meshOf (frames ts s) k))"
proof -
  have sh: "map_of (shapes s) k = Some (Some m)" using assms(2) by (simp add: meshOf_Some)
  have a: "entries ty (frame t s) k = None \<longleftrightarrow> \<bar>remaining ob - step_of ob ty t\<bar> < 1 / 1000"
    using frame_entry(1)[OF assms(1) sh assms(3), of t] by simp
  have b: "calls ty k (frames ts s) =
           calls ty k s + (if entries ty (frames ts s) k = None then 1 else 0)"
    using frames_calls[OF assms(1) sh assms(3)] .
  have c: "calls ty k (frames us (frames ts s)) = calls ty k (frames ts s) \<and>
            entries ty (frames us (frames ts s)) k = None \<and>
            map_option (driven ty) (meshOf (frames us (frames ts s)) k) =
              map_option (driven ty) (meshOf (frames ts s) k)"
    if n: "entries ty (frames ts s) k = None"
  proof -
    obtain m1 where m1: "map_of (shapes (frames ts s)) k = Some (Some m1)"
      using frames_mounted[OF assms(1) sh] by blast
    obtain m2 where m2: "map_of (shapes (frames us (frames ts s))) k = Some (Some m2)"
      "driven ty m2 = driven ty m1" "entries ty (frames us (frames ts s)) k = None"
      "calls ty k (frames us (frames ts s)) = calls ty k (frames ts s)"
      using frames_idle[OF wf_frames[OF assms(1)] m1 n, of us] by blast
    show ?thesis using m1 m2 by (simp add: meshOf_def)
  qed
  show ?thesis using a b c by blast
qed

theorem entry_completes_once_witness:
  "wf move_scene \<and> meshOf move_scene ''A1'' = Some mesh0 \<and>
   moving (frame (2047 / 2048) move_scene) ''A1'' = None \<and>
   calls Move ''A1'' (frames [1 / 2, 2047 / 2048] move_scene) = 1 \<and>
   entries Move (frames [1 / 2, 2047 / 2048] move_scene) ''A1'' = None \<and>
   calls Move ''A1'' (frames [1, 1] (frames [1 / 2, 2047 / 2048] move_scene)) = 1"
  using entry_completes_once [of move_scene "''A1''" mesh0 Move
      "\<lparr>axis = Some X, remaining = 1, resolve = DeleteMoving ''A1''\<rparr>" "2047 / 2048"
      "[1 / 2, 2047 / 2048]" "[1, 1]"]
    wf_move_scene move_scene_facts
  by (simp add: step_of_def speed_of_def) (simp add: eval_defs calls_def)






























subsection \<open>Two rotations in sequence\<close>

lemma wf_handleRotate: "wf s \<Longrightarrow> wf (handleRotate s)"
  by (auto simp: wf_def own_callbacks_def handleRotate_def alert_def split: option.splits)

text \<open>
  Every state reached from an initial scene with pairwise distinct box ids is well-formed.
\<close>

lemma wf_initial: "distinct (map fst ss) \<Longrightarrow> wf (initial ss)"
  by (simp add: wf_def own_callbacks_def initial_def)

lemma wf_handleMove: "wf s \<Longrightarrow> wf (handleMove s)"
  by (auto simp: wf_def own_callbacks_def handleMove_def alert_def split: option.splits)

lemma wf_act: "wf s \<Longrightarrow> wf (act a s)"
proof (cases a)
  case HandleMove
  assume "wf s"
  then show ?thesis using HandleMove by (simp add: wf_handleMove)
next
  case HandleRotate
  assume "wf s"
  then show ?thesis using HandleRotate by (simp add: wf_handleRotate)
next
  case (Frame d)
  assume "wf s"
  then show ?thesis using Frame by (simp add: wf_frame)
qed (simp_all add: wf_def toggleCar_def toggleError_def)

lemma wf_run: "wf s \<Longrightarrow> wf (run as s)"
  by (induction as arbitrary: s) (simp_all add: wf_act)

lemma wf_reachable: "distinct (map fst ss) \<Longrightarrow> wf (run as (initial ss))"
  by (simp add: wf_run wf_initial)

lemma frames_selectedBoxId: "selectedBoxId (frames ts s) = selectedBoxId s"
  by (induction ts arbitrary: s) (auto simp: frame_fields)

lemma handleRotate_admitted:
  assumes "selectedBoxId s = Some k" and "k \<noteq> []" and "moving s k = None" and "rotating s k = None"
  shows "rotating (handleRotate s) k = Some \<lparr>axis = None, remaining = pi, resolve = DeleteRotating k\<rparr>"
    and "shapes (handleRotate s) = shapes s" and "moving (handleRotate s) = moving s"
    and "selectedBoxId (handleRotate s) = selectedBoxId s"
  using assms by (simp_all add: handleRotate_def)

lemma rotation_completed:
  assumes "wf s" and "map_of (shapes s) k = Some (Some m)" and "selectedBoxId s = Some k" and "k \<noteq> []"
    and "moving s k = None" and "rotating s k = None"
    and "rotating (frames ts (handleRotate s)) k = None"
  shows "\<exists>m'. map_of (shapes (frames ts (handleRotate s))) k = Some (Some m') \<and>
           \<bar>rot_y m + pi - rot_y m'\<bar> < 1 / 1000 \<and>
           wf (frames ts (handleRotate s)) \<and> selectedBoxId (frames ts (handleRotate s)) = Some k \<and>
           moving (frames ts (handleRotate s)) k = None"
proof -
  note h = handleRotate_admitted[OF assms(3,4,5,6)]
  have w: "wf (handleRotate s)" using wf_handleRotate[OF assms(1)] .
  have sh: "map_of (shapes (handleRotate s)) k = Some (Some m)" using assms(2) h(2) by simp
  have e: "entries Rotate (handleRotate s) k =
             Some \<lparr>axis = None, remaining = pi, resolve = DeleteRotating k\<rparr>"
    using h(1) by simp
  obtain m' where m': "map_of (shapes (frames ts (handleRotate s))) k = Some (Some m')"
    and p: "\<bar>rot_y m + pi - rot_y m'\<bar> < 1 / 1000"
    using frames_progress[OF w sh e, of X ts] assms(7) by auto
  have mv: "entries Move (handleRotate s) k = None" using h(3) assms(5) by simp
  have "moving (frames ts (handleRotate s)) k = None"
    using frames_idle[OF w sh mv, of ts] by auto
  then show ?thesis
    using m' p wf_frames[OF w, of ts] frames_selectedBoxId[of ts "handleRotate s"] h(4) assms(3)
    by simp
qed

lemma rot_step [simp]: "min pi (pi * 4095 / 4096) = pi * 4095 / 4096"
  by (simp add: min_def)

lemma rot_done [simp]: "\<bar>pi - pi * 4095 / 4096\<bar> < 1 / 1000"
proof -
  have "pi - pi * 4095 / 4096 = pi / 4096" by simp
  then show ?thesis using pi_less_4 pi_gt_zero by simp
qed

lemma pi_small [simp]: "125 * pi < 512"
  using pi_less_4 by linarith

lemma rotated_once_facts:
  "rotating rotated_once ''A1'' = None"
  "moving rotated_once ''A1'' = None"
  "selectedBoxId rotated_once = Some ''A1''"
  "meshOf rotated_once ''A1'' = Some (mesh0\<lparr>rot_y := pi * 4095 / 4096\<rparr>)"
  by (simp_all add: rotated_once_def eval_defs)

lemma wf_rotated_once: "wf rotated_once"
  unfolding rotated_once_def by (rule wf_frames[OF wf_handleRotate[OF wf_scene]])

lemma rotated_twice_facts:
  "rotating rotated_twice ''A1'' = None"
  "map_option rot_y (meshOf rotated_twice ''A1'') = Some (4095 / 2048 * pi)"
proof -
  define s2 where "s2 = handleRotate rotated_once"
  define ob :: anim where "ob = \<lparr>axis = None, remaining = pi, resolve = DeleteRotating ''A1''\<rparr>"
  note h = handleRotate_admitted[OF rotated_once_facts(3) _ rotated_once_facts(2,1)]
  have w: "wf s2" unfolding s2_def by (rule wf_handleRotate[OF wf_rotated_once])
  have sh: "map_of (shapes s2) ''A1'' = Some (Some (mesh0\<lparr>rot_y := pi * 4095 / 4096\<rparr>))"
    using rotated_once_facts(4) h(2) by (simp add: s2_def meshOf_Some)
  have e: "entries Rotate s2 ''A1'' = Some ob" using h(1) by (simp add: s2_def ob_def)
  have st: "step_of ob Rotate (4095 / 4096) = pi * 4095 / 4096"
    by (simp add: step_of_def speed_of_def ob_def)
  note fe = frame_entry[OF w sh e, of "4095 / 4096"]
  have t: "rotated_twice = frame (4095 / 4096) s2" by (simp add: rotated_twice_def s2_def)
  show "rotating rotated_twice ''A1'' = None"
    using fe(1) unfolding st t by (simp add: ob_def)
  obtain m' where "map_of (shapes (frame (4095 / 4096) s2)) ''A1'' = Some (Some m')"
    and "coord Rotate X m' = coord Rotate X (mesh0\<lparr>rot_y := pi * 4095 / 4096\<rparr>) + pi * 4095 / 4096"
    using fe(3) unfolding st by auto
  then show "map_option rot_y (meshOf rotated_twice ''A1'') = Some (4095 / 2048 * pi)"
    unfolding t by (simp add: meshOf_def)
qed

lemma not_same_angle: "\<not> same_angle (4095 / 2048 * pi) 0"
proof
  assume "same_angle (4095 / 2048 * pi) 0"
  then obtain n :: int where "4095 / 2048 * pi - 0 = 2 * pi * real_of_int n"
    unfolding same_angle_def by blast
  then have "pi * (4095 / 2048) = pi * (2 * real_of_int n)" by (simp add: algebra_simps)
  then have "4095 / 2048 = 2 * real_of_int n" using pi_neq_zero by simp
  then have "real_of_int (4096 * n) = real_of_int 4095" by simp
  then have "4096 * n = 4095" using of_int_eq_iff by blast
  then have "even (4095::int)" by (metis even_mult_iff even_numeral)
  then show False by simp
qed

lemma twin_rotated_once_facts:
  "rotating (handleRotate twin_scene) ''A1'' \<noteq> None"
  "rotating twin_rotated_once ''A1'' = None"
  "moving twin_rotated_once ''A1'' = None"
  "selectedBoxId twin_rotated_once = Some ''A1''"
  "shapes twin_rotated_once =
     [(''A1'', Some (mesh0\<lparr>rot_y := pi / 2\<rparr>)), (''A1'', Some (mesh0\<lparr>rot_y := pi / 2\<rparr>))]"
  using pi_ge_two
  by (simp_all add: twin_rotated_once_def eval_defs twin_defs)

lemma twin_rotated_twice_facts:
  "rotating (handleRotate twin_rotated_once) ''A1'' \<noteq> None"
  "rotating twin_rotated_twice ''A1'' = None"
  "shapes twin_rotated_twice =
     [(''A1'', Some (mesh0\<lparr>rot_y := pi\<rparr>)), (''A1'', Some (mesh0\<lparr>rot_y := pi\<rparr>))]"
  using pi_ge_two
  by (simp_all add: twin_rotated_twice_def twin_rotated_once_def eval_defs twin_defs)

lemma not_same_angle_pi: "\<not> same_angle pi 0"
proof
  assume "same_angle pi 0"
  then obtain n :: int where "pi - 0 = 2 * pi * real_of_int n"
    unfolding same_angle_def by blast
  then have "pi * 1 = pi * (2 * real_of_int n)" by (simp add: algebra_simps)
  then have "1 = 2 * real_of_int n" using pi_neq_zero by (simp only: mult_cancel_left) simp
  then have "real_of_int (2 * n) = real_of_int 1" by simp
  then have "2 * n = 1" using of_int_eq_iff by blast
  then have "even (1::int)" by (metis even_mult_iff even_numeral)
  then show False by simp
qed

text \<open>
  C9, as stated: two rotations run to completion bring the Y rotation back to its
  original value modulo \<open>2\<pi>\<close>. It fails: a frame of \<open>4095/4096\<close> seconds leaves
  \<open>\<pi>/4096 < 0.001\<close> remaining, so each rotation ends after turning by
  \<open>4095\<pi>/4096\<close>, and two of them turn the mesh by \<open>4095\<pi>/2048\<close>. With two boxes of one
  id both shapes consume the shared entry: with frames of half a second each rotation
  turns each box by \<open>\<pi>/2\<close>, and after two completed rotations both stand at \<open>\<pi>\<close>.
\<close>

theorem two_rotations_counterexample:
  "rotating (handleRotate scene) ''A1'' \<noteq> None \<and>
   rotating rotated_once ''A1'' = None \<and>
   rotating (handleRotate rotated_once) ''A1'' \<noteq> None \<and>
   rotating rotated_twice ''A1'' = None \<and>
   map_option rot_y (meshOf scene ''A1'') = Some 0 \<and>
   map_option rot_y (meshOf rotated_twice ''A1'') = Some (4095 / 2048 * pi) \<and>
   \<not> same_angle (4095 / 2048 * pi) 0 \<and>
   shapes twin_scene = [(''A1'', Some mesh0), (''A1'', Some mesh0)] \<and>
   rotating (handleRotate twin_scene) ''A1'' \<noteq> None \<and>
   rotating twin_rotated_once ''A1'' = None \<and>
   rotating (handleRotate twin_rotated_once) ''A1'' \<noteq> None \<and>
   rotating twin_rotated_twice ''A1'' = None \<and>
   shapes twin_rotated_twice =
     [(''A1'', Some (mesh0\<lparr>rot_y := pi\<rparr>)), (''A1'', Some (mesh0\<lparr>rot_y := pi\<rparr>))] \<and>
   \<not> same_angle pi 0"
proof -
  have a: "rotating (handleRotate scene) ''A1'' \<noteq> None"
    using handleRotate_admitted(1)[OF scene_facts(2) _ scene_facts(3,4)] by simp
  have b: "rotating (handleRotate rotated_once) ''A1'' \<noteq> None"
    using handleRotate_admitted(1)[OF rotated_once_facts(3) _ rotated_once_facts(2,1)] by simp
  have c: "map_option rot_y (meshOf scene ''A1'') = Some 0"
    using scene_facts(1) by (simp add: mesh0_def)
  have d: "shapes twin_scene = [(''A1'', Some mesh0), (''A1'', Some mesh0)]"
    by (simp add: twin_scene_def initial_def)
  show ?thesis
    using a b c d rotated_once_facts(1) rotated_twice_facts not_same_angle
      twin_rotated_once_facts(1,2) twin_rotated_twice_facts not_same_angle_pi
    by blast
qed

text \<open>
  C9, amended: every rotate entry is created with remaining \<open>\<pi>\<close> whatever the Y rotation
  of the mesh; and in exact real arithmetic, for a mounted box of a scene whose box ids
  are pairwise distinct, every frame being followed by the re-render that applies the
  queued removals, after two rotations run to completion in sequence the Y rotation
  differs from its original value plus \<open>2\<pi>\<close> by less than 0.002.
\<close>

theorem two_rotations:
  assumes "wf s" and "meshOf s k = Some m" and "selectedBoxId s = Some k" and "k \<noteq> []"
    and "moving s k = None" and "rotating s k = None"
  shows "rotating (handleRotate s) k =
           Some \<lparr>axis = None, remaining = pi, resolve = DeleteRotating k\<rparr> \<and>
         (rotating (frames ts (handleRotate s)) k = None \<and>
          rotating (frames us (handleRotate (frames ts (handleRotate s)))) k = None \<longrightarrow>
            (\<exists>m'. meshOf (frames us (handleRotate (frames ts (handleRotate s)))) k = Some m' \<and>
                  \<bar>rot_y m' - (rot_y m + 2 * pi)\<bar> < 2 / 1000))"
proof -
  have sh: "map_of (shapes s) k = Some (Some m)" using assms(2) by (simp add: meshOf_Some)
  have a: "rotating (handleRotate s) k =
           Some \<lparr>axis = None, remaining = pi, resolve = DeleteRotating k\<rparr>"
    using handleRotate_admitted(1)[OF assms(3,4,5,6)] .
  have b: "\<exists>m'. meshOf (frames us (handleRotate (frames ts (handleRotate s)))) k = Some m' \<and>
                  \<bar>rot_y m' - (rot_y m + 2 * pi)\<bar> < 2 / 1000"
    if d1: "rotating (frames ts (handleRotate s)) k = None"
      and d2: "rotating (frames us (handleRotate (frames ts (handleRotate s)))) k = None"
  proof -
    obtain m1 where m1: "map_of (shapes (frames ts (handleRotate s))) k = Some (Some m1)"
      "\<bar>rot_y m + pi - rot_y m1\<bar> < 1 / 1000" "wf (frames ts (handleRotate s))"
      "selectedBoxId (frames ts (handleRotate s)) = Some k"
      "moving (frames ts (handleRotate s)) k = None"
      using rotation_completed[OF assms(1) sh assms(3,4,5,6) d1] by blast
    obtain m2 where m2:
      "map_of (shapes (frames us (handleRotate (frames ts (handleRotate s))))) k = Some (Some m2)"
      "\<bar>rot_y m1 + pi - rot_y m2\<bar> < 1 / 1000"
      using rotation_completed[OF m1(3) m1(1) m1(4) assms(4) m1(5) d1 d2] by blast
    have "\<bar>rot_y m2 - (rot_y m + 2 * pi)\<bar> < 2 / 1000" using m1(2) m2(2) by linarith
    then show ?thesis using m2(1) by (simp add: meshOf_def)
  qed
  show ?thesis using a b by blast
qed

theorem two_rotations_witness:
  "wf scene \<and> meshOf scene ''A1'' = Some mesh0 \<and> selectedBoxId scene = Some ''A1'' \<and>
   moving scene ''A1'' = None \<and> rotating scene ''A1'' = None \<and>
   rotating (frames [4095 / 4096] (handleRotate scene)) ''A1'' = None \<and>
   rotating (frames [4095 / 4096] (handleRotate (frames [4095 / 4096] (handleRotate scene)))) ''A1'' = None \<and>
   (\<exists>m'. meshOf (frames [4095 / 4096] (handleRotate (frames [4095 / 4096] (handleRotate scene)))) ''A1'' = Some m' \<and>
      \<bar>rot_y m' - (rot_y mesh0 + 2 * pi)\<bar> < 2 / 1000)"
proof -
  have ne: "''A1'' \<noteq> []" by simp
  note t = two_rotations [OF wf_scene scene_facts(1,2) ne scene_facts(3,4),
      of "[4095 / 4096]" "[4095 / 4096]"]
  have r1: "rotating (frames [4095 / 4096] (handleRotate scene)) ''A1'' = None"
    using rotated_once_facts(1) unfolding rotated_once_def .
  have r2: "rotating (frames [4095 / 4096] (handleRotate (frames [4095 / 4096] (handleRotate scene)))) ''A1'' = None"
    using rotated_twice_facts(1) unfolding rotated_twice_def rotated_once_def .
  show ?thesis using t r1 r2 wf_scene scene_facts by blast
qed

subsection \<open>Grid expansion\<close>

declare cols_loop.simps [simp del] rows_loop.simps [simp del] string_of_nat.simps [simp del]

lemma cols_loop_eq:
  "r < length (grid fl) \<Longrightarrow>
   cols_loop fl r c boxes =
     Inr (boxes @ map (new_box fl r) (filter (occupied fl r) [c..<cols fl]))"
proof (induction fl r c boxes rule: cols_loop.induct)
  case (1 fl r c boxes)
  show ?case
  proof (cases "c < cols fl")
    case True
    have u: "[c..<cols fl] = c # [Suc c..<cols fl]" using True by (simp add: upt_conv_Cons)
    have occ: "occupied fl r c \<longleftrightarrow> c < length (grid fl ! r) \<and> grid fl ! r ! c = 1"
      using "1.prems" by (simp add: occupied_def)
    show ?thesis
      using "1.IH"[OF True "1.prems" "1.prems"] True "1.prems"
      by (subst cols_loop.simps) (simp add: u occ)
  next
    case False
    then show ?thesis by (subst cols_loop.simps) simp
  qed
qed

lemma rows_loop_eq:
  "rows fl \<le> length (grid fl) \<Longrightarrow>
   rows_loop fl r boxes =
     Inr (boxes @ concat (map (\<lambda>r. map (new_box fl r) (filter (occupied fl r) [0..<cols fl]))
                           [r..<rows fl]))"
proof (induction fl r boxes rule: rows_loop.induct)
  case (1 fl r boxes)
  show ?case
  proof (cases "r < rows fl")
    case True
    have u: "[r..<rows fl] = r # [Suc r..<rows fl]" using True by (simp add: upt_conv_Cons)
    have lt: "r < length (grid fl)" using True "1.prems" by simp
    note c = cols_loop_eq[OF lt, of 0 boxes]
    show ?thesis
      using "1.IH"[OF True c "1.prems"] True
      by (subst rows_loop.simps) (simp add: u c)
  next
    case False
    then show ?thesis by (subst rows_loop.simps) simp
  qed
qed

lemma expandGrid_eq:
  "rows fl \<le> length (grid fl) \<Longrightarrow>
   expandGrid fl =
     Inr (concat (map (\<lambda>r. map (new_box fl r) (filter (occupied fl r) [0..<cols fl]))
                      [0..<rows fl]))"
  by (simp add: expandGrid_def rows_loop_eq)

lemma string_of_nat_digit: "n < 10 \<Longrightarrow> string_of_nat n = [digit_char n]"
  by (subst string_of_nat.simps) simp

lemma grid22_boxes:
  "expandGrid (grid22 y tpl) =
     Inr [\<lparr>box_id = ''01'', box_type = ''box'', box_x = 5, box_y = y, box_z = 5,
           box_width = width tpl, box_height = height tpl, box_depth = depth tpl,
           box_color = color tpl\<rparr>,
          \<lparr>box_id = ''12'', box_type = ''box'', box_x = 15, box_y = y, box_z = 15,
           box_width = width tpl, box_height = height tpl, box_depth = depth tpl,
           box_color = color tpl\<rparr>]"
proof -
  have r: "rows (grid22 y tpl) \<le> length (grid (grid22 y tpl))" by (simp add: grid22_def)
  have u: "[0..<2] = [0, Suc 0]" by (simp add: upt_rec)
  show ?thesis
    unfolding expandGrid_eq[OF r]
    by (simp add: grid22_def u occupied_def new_box_def rowLabel_def rowLabels_at_def
        string_of_nat_digit digit_char_def)
qed

lemma grid_rev_boxes:
  "map_sum id (map (\<lambda>b. (box_id b, box_x b, box_y b, box_z b))) (expandGrid grid_rev) =
     Inr [(''11'', 5, 0, 5), (''11'', 5, 0, 15)]"
proof -
  have r: "rows grid_rev \<le> length (grid grid_rev)" by (simp add: grid_rev_def)
  have u: "[0..<2] = [0, Suc 0]" by (simp add: upt_rec)
  show ?thesis
    unfolding expandGrid_eq[OF r]
    by (simp add: grid_rev_def u occupied_def new_box_def rowLabel_def rowLabels_at_def
        string_of_nat_digit digit_char_def)
qed

lemma js_string_rowLabel:
  "js_string (rowLabel fl r) =
     (if js_truthy (rowLabels_at fl r) then js_string (rowLabels_at fl r) else string_of_nat r)"
  by (simp add: rowLabel_def)

text \<open>
  C8, as stated: the id of a box is the explicit override for its row, when the list has
  one, followed by the column number. It fails for the row labels \<open>[1, 0]\<close>: the
  override \<open>0\<close> of row 1 is falsy, the row index takes its place, and the box of the cell
  \<open>(1, 0)\<close> gets the id \<open>11\<close> instead of \<open>01\<close> (the id of the box of row 0 as well).
\<close>

theorem expandGrid_override_counterexample:
  "map_sum id (map box_id) (expandGrid grid_rev) = Inr [''11'', ''11''] \<and>
   rowLabels grid_rev = Some [JNum 1, JNum 0] \<and>
   spec_rowLabel grid_rev 1 @ string_of_nat (0 + 1) = ''01''"
proof -
  have r: "rows grid_rev \<le> length (grid grid_rev)" by (simp add: grid_rev_def)
  have u: "[0..<2] = [0, Suc 0]" by (simp add: upt_rec)
  have a: "map_sum id (map box_id) (expandGrid grid_rev) = Inr [''11'', ''11'']"
    unfolding expandGrid_eq[OF r]
    by (simp add: grid_rev_def u occupied_def new_box_def rowLabel_def rowLabels_at_def
        string_of_nat_digit digit_char_def)
  show ?thesis using a
    by (simp add: spec_rowLabel_def grid_rev_def string_of_nat_digit digit_char_def)
qed

text \<open>
  C8, amended: for a grid whose array has a row for each of its \<open>rows\<close>, expandGrid
  returns exactly one box per occupied cell \<open>(r, c)\<close>, in row-major order, at
  \<open>x = c * cellWidth + cellWidth / 2\<close>, \<open>z = r * cellDepth + cellDepth / 2\<close> and the
  grid's \<open>y\<close>, with the id made of the row label (the override for row \<open>r\<close> when it is
  present and truthy, else the numeric row index) and the column number \<open>c + 1\<close>; the
  grid \<open>[[1,0],[0,1]]\<close> with cells of 10 by 10 and no row labels yields the boxes \<open>01\<close> at
  \<open>(5, y, 5)\<close> and \<open>12\<close> at \<open>(15, y, 15)\<close>.
\<close>

theorem expandGrid_boxes:
  "(rows fl \<le> length (grid fl) \<longrightarrow>
      (\<exists>bs. expandGrid fl = Inr bs \<and>
         map (\<lambda>b. (box_id b, box_x b, box_y b, box_z b)) bs =
           concat (map (\<lambda>r. map (\<lambda>c.
               ((if js_truthy (rowLabels_at fl r) then js_string (rowLabels_at fl r)
                 else string_of_nat r) @ string_of_nat (c + 1),
                real c * cellWidth fl + cellWidth fl / 2,
                floor_y fl,
                real r * cellDepth fl + cellDepth fl / 2))
             (filter (occupied fl r) [0..<cols fl])) [0..<rows fl]))) \<and>
   map_sum id (map (\<lambda>b. (box_id b, box_x b, box_y b, box_z b))) (expandGrid (grid22 y tpl)) =
     Inr [(''01'', 5, y, 5), (''12'', 15, y, 15)]"
proof -
  have a: "map (\<lambda>b. (box_id b, box_x b, box_y b, box_z b))
             (concat (map (\<lambda>r. map (new_box fl r) (filter (occupied fl r) [0..<cols fl]))
                      [0..<rows fl])) =
           concat (map (\<lambda>r. map (\<lambda>c.
               ((if js_truthy (rowLabels_at fl r) then js_string (rowLabels_at fl r)
                 else string_of_nat r) @ string_of_nat (c + 1),
                real c * cellWidth fl + cellWidth fl / 2,
                floor_y fl,
                real r * cellDepth fl + cellDepth fl / 2))
             (filter (occupied fl r) [0..<cols fl])) [0..<rows fl])"
    by (simp add: map_concat comp_def new_box_def js_string_rowLabel)
  show ?thesis using a by (simp add: expandGrid_eq grid22_boxes)
qed

theorem expandGrid_boxes_witness:
  "rows grid_rev \<le> length (grid grid_rev) \<and>
   (\<exists>bs. expandGrid grid_rev = Inr bs \<and>
      map (\<lambda>b. (box_id b, box_x b, box_y b, box_z b)) bs =
        [(''11'', 5, 0, 5), (''11'', 5, 0, 15)])"
proof -
  have r: "rows grid_rev \<le> length (grid grid_rev)" by (simp add: grid_rev_def)
  have u: "[0..<2] = [0, Suc 0]" by (simp add: upt_rec)
  show ?thesis
    using expandGrid_boxes [of grid_rev 0 "floor_box grid_rev"] r
    by (simp add: grid_rev_def u occupied_def rowLabels_at_def string_of_nat_digit digit_char_def)
qed

text \<open>
  C10: the falsy values are the empty string, 0, \<^verbatim>\<open>null\<close> and \<^verbatim>\<open>undefined\<close>; for a row
  whose entry in the override list is falsy the row label is the numeric row index, the
  id of a box of that row is the row index followed by the column number, and
  expandGrid emits that box for every occupied cell of the row.
\<close>

theorem falsy_rowLabel_falls_back:
  "(\<not> js_truthy v \<longleftrightarrow> v = JStr [] \<or> v = JNum 0 \<or> v = JNull \<or> v = JUndefined) \<and>
   (rowLabels fl = Some ls \<and> r < length ls \<and> \<not> js_truthy (ls ! r) \<longrightarrow>
      rowLabel fl r = JNum r \<and>
      box_id (new_box fl r c) = string_of_nat r @ string_of_nat (c + 1)) \<and>
   (rowLabels fl = Some ls \<and> r < length ls \<and> \<not> js_truthy (ls ! r) \<and>
    rows fl \<le> length (grid fl) \<and> r < rows fl \<and> c < cols fl \<and> occupied fl r c \<longrightarrow>
      (\<exists>bs. expandGrid fl = Inr bs \<and> new_box fl r c \<in> set bs))"
proof -
  have a: "\<not> js_truthy v \<longleftrightarrow> v = JStr [] \<or> v = JNum 0 \<or> v = JNull \<or> v = JUndefined"
    by (cases v) auto
  have b: "rowLabel fl r = JNum r \<and>
      box_id (new_box fl r c) = string_of_nat r @ string_of_nat (c + 1)"
    if "rowLabels fl = Some ls" "r < length ls" "\<not> js_truthy (ls ! r)"
    using that by (simp add: rowLabel_def rowLabels_at_def new_box_def)
  have c: "\<exists>bs. expandGrid fl = Inr bs \<and> new_box fl r c \<in> set bs"
    if "rows fl \<le> length (grid fl)" "r < rows fl" "c < cols fl" "occupied fl r c"
    using that by (auto simp: expandGrid_eq)
  show ?thesis using a b c by blast
qed

theorem falsy_rowLabel_falls_back_witness:
  "rowLabels grid_rev = Some [JNum 1, JNum 0] \<and> \<not> js_truthy ([JNum 1, JNum 0] ! 1) \<and>
   rows grid_rev \<le> length (grid grid_rev) \<and> occupied grid_rev 1 0 \<and>
   rowLabel grid_rev 1 = JNum 1 \<and> box_id (new_box grid_rev 1 0) = ''11'' \<and>
   (\<exists>bs. expandGrid grid_rev = Inr bs \<and> new_box grid_rev 1 0 \<in> set bs)"
  using falsy_rowLabel_falls_back [of "JNum 0" grid_rev "[JNum 1, JNum 0]" 1 0]
  by (simp add: grid_rev_def occupied_def string_of_nat_digit digit_char_def)

end
